theory Spec2Isabelle
  imports Complex_Main "HOL-Library.Char_ord" "HOL-Library.List_Lexorder"
begin

section \<open>Python values used by the retrieval pipeline\<close>

text \<open>
  The pipeline is Python. Texts are modelled as \<^typ>\<open>string\<close> restricted to ASCII:
  the white space of \<^verbatim>\<open>str.split()\<close> and \<^verbatim>\<open>str.strip()\<close> is the ASCII white space
  Python recognises (TAB, LF, VT, FF, CR, FS, GS, RS, US, SPACE), and \<^verbatim>\<open>str.lower()\<close>
  maps \<^verbatim>\<open>A..Z\<close> to \<^verbatim>\<open>a..z\<close>. Python integers are \<^typ>\<open>int\<close>. An exception that
  leaves a function is the \<open>Inl\<close> side of a sum.
\<close>

datatype py_error = ValueError | IndexError

definition is_space :: "char \<Rightarrow> bool" where
  "is_space c = (c \<in> set [CHR 0x09, CHR 0x0A, CHR 0x0B, CHR 0x0C, CHR 0x0D,
                             CHR 0x1C, CHR 0x1D, CHR 0x1E, CHR 0x1F, CHR '' ''])"

text \<open>\<^verbatim>\<open>s.split()\<close>: the maximal runs of non-space characters, in order. The second
  argument collects the current run, reversed.\<close>

fun split_from :: "string \<Rightarrow> string \<Rightarrow> string list" where
  "split_from [] cur = (if cur = [] then [] else [rev cur])"
| "split_from (c # cs) cur =
     (if is_space c then (if cur = [] then split_from cs [] else rev cur # split_from cs [])
      else split_from cs (c # cur))"

definition py_split :: "string \<Rightarrow> string list" where
  "py_split s = split_from s []"

text \<open>\<^verbatim>\<open>s.strip()\<close>\<close>

definition py_strip :: "string \<Rightarrow> string" where
  "py_strip s = rev (dropWhile is_space (rev (dropWhile is_space s)))"

text \<open>\<^verbatim>\<open>sep.join(ws)\<close>\<close>

fun py_join :: "string \<Rightarrow> string list \<Rightarrow> string" where
  "py_join sep [] = []"
| "py_join sep [w] = w"
| "py_join sep (w # v # ws) = w @ sep @ py_join sep (v # ws)"

text \<open>\<^verbatim>\<open>xs[i:j]\<close> for integers \<open>i\<close> and \<open>j\<close>: a negative bound counts from the end, and
  both bounds are clamped to the list.\<close>

definition clamp_index :: "nat \<Rightarrow> int \<Rightarrow> nat" where
  "clamp_index n x = (if x < 0 then nat (max (x + int n) 0) else min (nat x) n)"

definition py_slice :: "'a list \<Rightarrow> int \<Rightarrow> int \<Rightarrow> 'a list" where
  "py_slice xs i j =
     (let a = clamp_index (length xs) i; b = clamp_index (length xs) j
      in take (b - a) (drop a xs))"

section \<open>The word-window chunker\<close>

text \<open>
  \<^verbatim>\<open>PersistentBhutanRAG.chunk_text\<close> and \<^verbatim>\<open>ImprovedBhutanRAG.simple_chunk_text\<close> have the
  same body:
  \<^verbatim>\<open>
    words = text.split()
    chunks = []
    for i in range(0, len(words), chunk_size - overlap):
        chunk_words = words[i:i + chunk_size]
        chunk = " ".join(chunk_words)
        if chunk.strip():
            chunks.append(chunk)
        if i + chunk_size >= len(words):
            break
    return chunks
  \<close>
  \<open>chunk_loop\<close> is the \<^verbatim>\<open>for\<close> loop from index \<open>i\<close> on, for the step
  \<open>chunk_size - overlap\<close>. \<^verbatim>\<open>range\<close> with a negative step from 0 to a length is empty,
  and with step 0 it raises \<^verbatim>\<open>ValueError\<close>.
\<close>

function chunk_loop :: "string list \<Rightarrow> int \<Rightarrow> int \<Rightarrow> nat \<Rightarrow> string list" where
  "chunk_loop words chunk_size step i =
     (if step \<le> 0 \<or> length words \<le> i then []
      else (if py_strip (py_join '' '' (py_slice words (int i) (int i + chunk_size))) \<noteq> []
            then [py_join '' '' (py_slice words (int i) (int i + chunk_size))] else [])
           @ (if int i + chunk_size \<ge> int (length words) then []
              else chunk_loop words chunk_size step (i + nat step)))"
  by pat_completeness auto
termination
  by (relation "measure (\<lambda>(words, chunk_size, step, i). length words - i)") auto

declare chunk_loop.simps [simp del]

definition chunk_text :: "string \<Rightarrow> int \<Rightarrow> int \<Rightarrow> py_error + string list" where
  "chunk_text text chunk_size overlap =
     (if chunk_size - overlap = 0 then Inl ValueError
      else Inr (chunk_loop (py_split text) chunk_size (chunk_size - overlap) 0))"

text \<open>The two call sites use the defaults of their own class.\<close>

definition persistent_chunk_text :: "string \<Rightarrow> py_error + string list" where
  "persistent_chunk_text text = chunk_text text 1200 200"

definition simple_chunk_text :: "string \<Rightarrow> py_error + string list" where
  "simple_chunk_text text = chunk_text text 1500 300"

text \<open>A word as \<^verbatim>\<open>split()\<close> returns it: not empty and free of white space.\<close>

definition word_ok :: "string \<Rightarrow> bool" where
  "word_ok w = (w \<noteq> [] \<and> (\<forall>c\<in>set w. \<not> is_space c))"

section \<open>Keyword search\<close>

text \<open>\<^verbatim>\<open>s.lower()\<close> on ASCII.\<close>

definition lower_char :: "char \<Rightarrow> char" where
  "lower_char c =
     (case map_of (zip ''ABCDEFGHIJKLMNOPQRSTUVWXYZ'' ''abcdefghijklmnopqrstuvwxyz'') c of
        Some l \<Rightarrow> l
      | None \<Rightarrow> c)"

definition py_lower :: "string \<Rightarrow> string" where
  "py_lower s = map lower_char s"

text \<open>\<^verbatim>\<open>sub in s\<close> on strings: \<open>sub\<close> occurs in \<open>s\<close> as a contiguous run.\<close>

fun starts_with :: "string \<Rightarrow> string \<Rightarrow> bool" where
  "starts_with [] s = True"
| "starts_with (p # ps) [] = False"
| "starts_with (p # ps) (c # cs) = (p = c \<and> starts_with ps cs)"

fun py_in :: "string \<Rightarrow> string \<Rightarrow> bool" where
  "py_in sub [] = (sub = [])"
| "py_in sub (c # cs) = (starts_with sub (c # cs) \<or> py_in sub cs)"

text \<open>
  The metadata dictionaries. \<^verbatim>\<open>BhutanLegalRAG.create_text_chunks\<close> stores
  \<^verbatim>\<open>document\<close>, \<^verbatim>\<open>chunk_id\<close> and \<^verbatim>\<open>total_chunks\<close>;
  \<^verbatim>\<open>PersistentBhutanRAG.create_chunks\<close> adds \<^verbatim>\<open>doc_type\<close>, and
  \<^verbatim>\<open>ImprovedBhutanRAG.create_enhanced_chunks\<close> adds \<^verbatim>\<open>content_preview\<close> to that.
\<close>

record chunk_meta =
  document :: string
  chunk_id :: nat
  total_chunks :: nat

record typed_meta = chunk_meta +
  doc_type :: string

record enhanced_meta = typed_meta +
  content_preview :: string

text \<open>
  \<^verbatim>\<open>ImprovedBhutanRAG.enhanced_text_search\<close>:
  \<^verbatim>\<open>
    query_words = query.lower().split()
    scored_chunks = []
    for i, chunk in enumerate(self.chunks_with_context):
        chunk_lower = chunk.lower()
        score = 0
        if query.lower() in chunk_lower:
            score += 10
        word_matches = sum(1 for word in query_words if word in chunk_lower)
        score += word_matches * 2
        metadata = self.metadata_with_context[i]
        doc_name = metadata.get('document', '').lower()
        if 'constitution' in query.lower() and 'constitution' in doc_name:
            score += 5
        elif 'corruption' in query.lower() and 'corruption' in doc_name:
            score += 5
        elif 'rights' in query.lower() and 'constitution' in doc_name:
            score += 3
        if score > 0:
            scored_chunks.append((score, chunk, metadata))
    scored_chunks.sort(reverse=True, key=lambda x: x[0])
    top_results = scored_chunks[:k]
    docs = [chunk for _, chunk, _ in top_results]
    metadata = [meta for _, _, meta in top_results]
    return docs, metadata
  \<close>
  \<open>domain_boost\<close> is the \<^verbatim>\<open>if/elif\<close> chain and \<open>chunk_score\<close> the score the loop
  body gives one chunk.
\<close>

definition domain_boost :: "string \<Rightarrow> string \<Rightarrow> int" where
  "domain_boost query_lower doc_name =
     (if py_in ''constitution'' query_lower \<and> py_in ''constitution'' doc_name then 5
      else if py_in ''corruption'' query_lower \<and> py_in ''corruption'' doc_name then 5
      else if py_in ''rights'' query_lower \<and> py_in ''constitution'' doc_name then 3
      else 0)"

definition word_matches :: "string \<Rightarrow> string \<Rightarrow> nat" where
  "word_matches query chunk =
     length (filter (\<lambda>word. py_in word (py_lower chunk)) (py_split (py_lower query)))"

definition chunk_score :: "string \<Rightarrow> string \<Rightarrow> 'a chunk_meta_scheme \<Rightarrow> int" where
  "chunk_score query chunk metadata =
     (if py_in (py_lower query) (py_lower chunk) then 10 else 0)
     + int (word_matches query chunk) * 2
     + domain_boost (py_lower query) (py_lower (document metadata))"

text \<open>The loop from index \<open>i\<close> on; \<^verbatim>\<open>self.metadata_with_context[i]\<close> raises
  \<^verbatim>\<open>IndexError\<close> when the metadata list is shorter than the chunk list.\<close>

fun score_chunks ::
  "string \<Rightarrow> string list \<Rightarrow> 'a chunk_meta_scheme list \<Rightarrow> nat \<Rightarrow>
   py_error + (int \<times> string \<times> 'a chunk_meta_scheme) list" where
  "score_chunks query [] metas i = Inr []"
| "score_chunks query (chunk # rest) metas i =
     (if length metas \<le> i then Inl IndexError
      else case score_chunks query rest metas (Suc i) of
             Inl e \<Rightarrow> Inl e
           | Inr scored \<Rightarrow>
               Inr (if chunk_score query chunk (metas ! i) > 0
                    then (chunk_score query chunk (metas ! i), chunk, metas ! i) # scored
                    else scored))"

text \<open>\<^verbatim>\<open>sort(reverse=True, key=...)\<close> is stable: it orders by descending key and keeps
  entries of equal key in their order, as \<^const>\<open>sort_key\<close> does on the negated key.\<close>

definition sort_desc :: "(int \<times> 'b) list \<Rightarrow> (int \<times> 'b) list" where
  "sort_desc scored = sort_key (\<lambda>x. - fst x) scored"

definition enhanced_text_search ::
  "string list \<Rightarrow> 'a chunk_meta_scheme list \<Rightarrow> string \<Rightarrow> int \<Rightarrow>
   py_error + (string list \<times> 'a chunk_meta_scheme list)" where
  "enhanced_text_search chunks_with_context metadata_with_context query k =
     (case score_chunks query chunks_with_context metadata_with_context 0 of
        Inl e \<Rightarrow> Inl e
      | Inr scored_chunks \<Rightarrow>
          (let top_results = py_slice (sort_desc scored_chunks) 0 k
           in Inr (map (\<lambda>(_, chunk, _). chunk) top_results,
                   map (\<lambda>(_, _, meta). meta) top_results)))"

text \<open>The scored list the loop builds when every index has its metadata: the stored
  (chunk, metadata) pairs of positive score, in order, each with its score.\<close>

definition scored_of :: "string \<Rightarrow> string list \<Rightarrow> 'a chunk_meta_scheme list \<Rightarrow> (int \<times> string \<times> 'a chunk_meta_scheme) list" where
  "scored_of query chunks metas =
     map (\<lambda>(c, m). (chunk_score query c m, c, m))
       (filter (\<lambda>(c, m). 0 < chunk_score query c m) (zip chunks metas))"


section \<open>The three prototypes and their state\<close>

text \<open>
  The attributes the three classes share: the retained chunk list, the metadata list and
  the handle of the vector index (\<^verbatim>\<open>None\<close> until a collection is set up). A collection
  is the list of its entries in insertion order, each an id, a chunk text and a metadata
  dictionary; the embedding vectors stay inside the index library.
\<close>

type_synonym 'm collection = "(string \<times> string \<times> 'm) list"

record 'm rag =
  chunks_with_context :: "string list"
  metadata_with_context :: "'m list"
  vector_db :: "'m collection option"

text \<open>
  \<^verbatim>\<open>PersistentBhutanRAG\<close> adds the extracted texts and works on a cache directory. A cache
  file is missing, or exists and cannot be read back, or holds what was dumped into it. \<^verbatim>\<open>system_metadata.json\<close> is modelled without its two
  wall-clock entries (\<^verbatim>\<open>created_at\<close>, \<^verbatim>\<open>processing_time\<close>). \<^verbatim>\<open>embeddings.pickle\<close> is only
  ever tested for existence and deleted. The documents directory lists the PDF files with
  the \<^verbatim>\<open>stat\<close> fields the fingerprint reads; the modification time, a float, is carried
  as the text Python formats it to. \<open>calls\<close> records the invocations of the text extractor
  and of the embedding model, latest last.
\<close>

datatype 'a cache_file = Missing | Unreadable | Holds 'a

record system_metadata =
  documents_hash :: string
  document_count :: nat
  chunks_count :: nat
  system_version :: string

record pdf_file =
  name :: string
  st_size :: nat
  st_mtime :: string

datatype event = ExtractText string | Encode "string list"

record persistent_rag = "typed_meta rag" +
  legal_texts :: "(string \<times> string) list"
  embedding_model :: bool
  texts_cache :: "(string \<times> string) list cache_file"
  chunks_cache :: "(string list \<times> typed_meta list) cache_file"
  embeddings_cache :: bool
  metadata_cache :: "system_metadata cache_file"
  vector_db_dir :: "typed_meta collection option"
  docs_dir :: "pdf_file list"
  calls :: "event list"

text \<open>The object \<^verbatim>\<open>PersistentBhutanRAG.__init__\<close> builds, over an empty cache directory and
  the documents directory \<open>docs\<close>.\<close>

definition new_persistent_rag :: "pdf_file list \<Rightarrow> persistent_rag" where
  "new_persistent_rag docs =
     \<lparr>chunks_with_context = [], metadata_with_context = [], vector_db = None,
      legal_texts = [], embedding_model = False,
      texts_cache = Missing, chunks_cache = Missing, embeddings_cache = False,
      metadata_cache = Missing, vector_db_dir = None, docs_dir = docs, calls = []\<rparr>"

text \<open>\<^verbatim>\<open>BhutanLegalRAG\<close> sets \<^verbatim>\<open>chunks_fallback\<close> and \<^verbatim>\<open>metadata_fallback\<close> together, and
  only when setting up the vector database failed.\<close>

record legal_rag = "chunk_meta rag" +
  chunks_fallback :: "(string list \<times> chunk_meta list) option"

section \<open>Chunk creation\<close>

text \<open>\<^verbatim>\<open>get_document_type\<close> of \<^verbatim>\<open>PersistentBhutanRAG\<close>, and of \<^verbatim>\<open>ImprovedBhutanRAG\<close>, which
  knows \<^verbatim>\<open>civil\<close> as well.\<close>

definition get_document_type :: "string \<Rightarrow> string" where
  "get_document_type doc_name =
     (let doc_lower = py_lower doc_name in
      if py_in ''constitution'' doc_lower then ''constitution''
      else if py_in ''penal'' doc_lower \<or> py_in ''criminal'' doc_lower then ''criminal_law''
      else if py_in ''corruption'' doc_lower then ''anti_corruption''
      else if py_in ''land'' doc_lower then ''land_law''
      else if py_in ''tax'' doc_lower then ''tax_law''
      else if py_in ''environment'' doc_lower then ''environmental_law''
      else ''general_law'')"

definition get_document_type_v2 :: "string \<Rightarrow> string" where
  "get_document_type_v2 doc_name =
     (let doc_lower = py_lower doc_name in
      if py_in ''constitution'' doc_lower then ''constitution''
      else if py_in ''penal'' doc_lower \<or> py_in ''criminal'' doc_lower then ''criminal_law''
      else if py_in ''civil'' doc_lower then ''civil_law''
      else if py_in ''corruption'' doc_lower then ''anti_corruption''
      else if py_in ''land'' doc_lower then ''land_law''
      else if py_in ''tax'' doc_lower then ''tax_law''
      else if py_in ''environment'' doc_lower then ''environmental_law''
      else ''general_law'')"

text \<open>
  \<^verbatim>\<open>PersistentBhutanRAG.create_chunks\<close>:
  \<^verbatim>\<open>
    all_chunks = []
    metadata = []
    for doc_name, text in legal_texts.items():
        chunks = self.chunk_text(text, chunk_size=1200, overlap=200)
        for i, chunk in enumerate(chunks):
            if len(chunk.strip()) > 100:
                all_chunks.append(chunk)
                metadata.append({"document": doc_name, "chunk_id": i,
                                 "total_chunks": len(chunks),
                                 "doc_type": self.get_document_type(doc_name)})
    self.save_chunks_data(all_chunks, metadata)
    self.chunks_with_context = all_chunks
    self.metadata_with_context = metadata
    return all_chunks, metadata
  \<close>
  The two lists are two accumulators, appended to separately as in the source.
  \<open>add_chunks\<close> is the inner loop from index \<open>i\<close> on, \<open>create_chunks_loop\<close> the outer one.
\<close>

fun add_chunks ::
  "string \<Rightarrow> nat \<Rightarrow> nat \<Rightarrow> string list \<Rightarrow> string list \<times> typed_meta list \<Rightarrow>
   string list \<times> typed_meta list" where
  "add_chunks doc_name n i [] (all_chunks, metadata) = (all_chunks, metadata)"
| "add_chunks doc_name n i (chunk # rest) (all_chunks, metadata) =
     add_chunks doc_name n (Suc i) rest
       (if length (py_strip chunk) > 100
        then (all_chunks @ [chunk],
              metadata @ [\<lparr>document = doc_name, chunk_id = i, total_chunks = n,
                           doc_type = get_document_type doc_name\<rparr>])
        else (all_chunks, metadata))"

fun create_chunks_loop ::
  "(string \<times> string) list \<Rightarrow> string list \<times> typed_meta list \<Rightarrow>
   py_error + string list \<times> typed_meta list" where
  "create_chunks_loop [] acc = Inr acc"
| "create_chunks_loop ((doc_name, text) # rest) acc =
     (case chunk_text text 1200 200 of
        Inl e \<Rightarrow> Inl e
      | Inr chunks \<Rightarrow> create_chunks_loop rest (add_chunks doc_name (length chunks) 0 chunks acc))"

definition save_chunks_data ::
  "string list \<Rightarrow> typed_meta list \<Rightarrow> persistent_rag \<Rightarrow> persistent_rag" where
  "save_chunks_data chunks metadata self = self\<lparr>chunks_cache := Holds (chunks, metadata)\<rparr>"

definition create_chunks ::
  "(string \<times> string) list \<Rightarrow> persistent_rag \<Rightarrow>
   py_error + (string list \<times> typed_meta list) \<times> persistent_rag" where
  "create_chunks texts self =
     (case create_chunks_loop texts ([], []) of
        Inl e \<Rightarrow> Inl e
      | Inr (all_chunks, metadata) \<Rightarrow>
          Inr ((all_chunks, metadata),
               (save_chunks_data all_chunks metadata self)
                 \<lparr>chunks_with_context := all_chunks, metadata_with_context := metadata\<rparr>))"

text \<open>
  \<^verbatim>\<open>PersistentBhutanRAG.load_chunks_data\<close>: the pickle holds the dictionary
  \<^verbatim>\<open>save_chunks_data\<close> dumped; a missing or unreadable file raises inside the \<^verbatim>\<open>try\<close>
  before any attribute is assigned, and the method returns two empty lists.
\<close>

definition load_chunks_data ::
  "persistent_rag \<Rightarrow> (string list \<times> typed_meta list) \<times> persistent_rag" where
  "load_chunks_data self =
     (case chunks_cache self of
        Holds (chunks, metadata) \<Rightarrow>
          ((chunks, metadata),
           self\<lparr>chunks_with_context := chunks, metadata_with_context := metadata\<rparr>)
      | _ \<Rightarrow> (([], []), self))"

text \<open>
  \<^verbatim>\<open>ImprovedBhutanRAG.split_legal_document\<close> tries six regular expressions in turn. The
  regular-expression engine is a library: \<open>re_split p text\<close> stands for
  \<^verbatim>\<open>re.split(p, text)\<close> and \<open>re_finditer p text\<close> for the \<^verbatim>\<open>(start, end)\<close> spans of
  \<^verbatim>\<open>re.finditer(p, text)\<close>, both parameters of the model.
  \<^verbatim>\<open>
    for pattern in patterns:
        sections = re.split(pattern, text)
        if len(sections) > 3:
            result = []
            matches = re.finditer(pattern, text)
            last_end = 0
            for match in matches:
                if last_end < match.start():
                    result.append(text[last_end:match.start()])
                last_end = match.end()
            if last_end < len(text):
                result.append(text[last_end:])
            result = [s for s in result if len(s.strip()) > 100]
            if len(result) > 2:
                return result
    return self.simple_chunk_text(text)
  \<close>
\<close>

datatype pattern = Article | Section | Chapter | Numbered | Lettered | Paragraph

definition patterns :: "pattern list" where
  "patterns = [Article, Section, Chapter, Numbered, Lettered, Paragraph]"

fun between_matches :: "string \<Rightarrow> (nat \<times> nat) list \<Rightarrow> nat \<Rightarrow> string list" where
  "between_matches text [] last_end =
     (if last_end < length text then [drop last_end text] else [])"
| "between_matches text ((m_start, m_end) # matches) last_end =
     (if last_end < m_start then [py_slice text (int last_end) (int m_start)] else [])
     @ between_matches text matches m_end"

fun split_by ::
  "(pattern \<Rightarrow> string \<Rightarrow> string list) \<Rightarrow> (pattern \<Rightarrow> string \<Rightarrow> (nat \<times> nat) list) \<Rightarrow>
   string \<Rightarrow> pattern list \<Rightarrow> string list option" where
  "split_by re_split re_finditer text [] = None"
| "split_by re_split re_finditer text (p # ps) =
     (if length (re_split p text) > 3
         \<and> length (filter (\<lambda>s. length (py_strip s) > 100)
                     (between_matches text (re_finditer p text) 0)) > 2
      then Some (filter (\<lambda>s. length (py_strip s) > 100)
                   (between_matches text (re_finditer p text) 0))
      else split_by re_split re_finditer text ps)"

definition split_legal_document ::
  "(pattern \<Rightarrow> string \<Rightarrow> string list) \<Rightarrow> (pattern \<Rightarrow> string \<Rightarrow> (nat \<times> nat) list) \<Rightarrow>
   string \<Rightarrow> string \<Rightarrow> py_error + string list" where
  "split_legal_document re_split re_finditer text doc_name =
     (case split_by re_split re_finditer text patterns of
        Some result \<Rightarrow> Inr result
      | None \<Rightarrow> simple_chunk_text text)"

text \<open>
  \<^verbatim>\<open>ImprovedBhutanRAG.create_enhanced_chunks\<close>:
  \<^verbatim>\<open>
    for doc_name, text in legal_texts.items():
        sections = self.split_legal_document(text, doc_name)
        for i, section in enumerate(sections):
            if len(section.strip()) > 50:
                all_chunks.append(section)
                metadata.append({"document": doc_name, "chunk_id": i,
                    "total_chunks": len(sections),
                    "doc_type": self.get_document_type(doc_name),
                    "content_preview": section[:100] + "..." if len(section) > 100 else section})
    self.chunks_with_context = all_chunks
    self.metadata_with_context = metadata
    return all_chunks, metadata
  \<close>
\<close>

fun add_sections ::
  "string \<Rightarrow> nat \<Rightarrow> nat \<Rightarrow> string list \<Rightarrow> string list \<times> enhanced_meta list \<Rightarrow>
   string list \<times> enhanced_meta list" where
  "add_sections doc_name n i [] (all_chunks, metadata) = (all_chunks, metadata)"
| "add_sections doc_name n i (section # rest) (all_chunks, metadata) =
     add_sections doc_name n (Suc i) rest
       (if length (py_strip section) > 50
        then (all_chunks @ [section],
              metadata @ [\<lparr>document = doc_name, chunk_id = i, total_chunks = n,
                           doc_type = get_document_type_v2 doc_name,
                           content_preview =
                             (if length section > 100 then take 100 section @ ''...''
                              else section)\<rparr>])
        else (all_chunks, metadata))"

fun create_enhanced_loop ::
  "(pattern \<Rightarrow> string \<Rightarrow> string list) \<Rightarrow> (pattern \<Rightarrow> string \<Rightarrow> (nat \<times> nat) list) \<Rightarrow>
   (string \<times> string) list \<Rightarrow> string list \<times> enhanced_meta list \<Rightarrow>
   py_error + string list \<times> enhanced_meta list" where
  "create_enhanced_loop re_split re_finditer [] acc = Inr acc"
| "create_enhanced_loop re_split re_finditer ((doc_name, text) # rest) acc =
     (case split_legal_document re_split re_finditer text doc_name of
        Inl e \<Rightarrow> Inl e
      | Inr sections \<Rightarrow>
          create_enhanced_loop re_split re_finditer rest
            (add_sections doc_name (length sections) 0 sections acc))"

definition create_enhanced_chunks ::
  "(pattern \<Rightarrow> string \<Rightarrow> string list) \<Rightarrow> (pattern \<Rightarrow> string \<Rightarrow> (nat \<times> nat) list) \<Rightarrow>
   (string \<times> string) list \<Rightarrow> enhanced_meta rag \<Rightarrow>
   py_error + (string list \<times> enhanced_meta list) \<times> enhanced_meta rag" where
  "create_enhanced_chunks re_split re_finditer texts self =
     (case create_enhanced_loop re_split re_finditer texts ([], []) of
        Inl e \<Rightarrow> Inl e
      | Inr (all_chunks, metadata) \<Rightarrow>
          Inr ((all_chunks, metadata),
               self\<lparr>chunks_with_context := all_chunks, metadata_with_context := metadata\<rparr>))"

text \<open>
  What the claim on alignment says of a chunk list and a metadata list made from the
  texts \<open>texts\<close> by the splitter \<open>split\<close>: equal lengths, and entry \<open>i\<close> of the metadata
  names a document of \<open>texts\<close> and the position, among the pieces of that document's text,
  of chunk \<open>i\<close>.
\<close>

definition made_from ::
  "(string \<Rightarrow> string \<Rightarrow> py_error + string list) \<Rightarrow> (string \<times> string) list \<Rightarrow> string \<Rightarrow>
   'a chunk_meta_scheme \<Rightarrow> bool" where
  "made_from split texts chunk meta =
     (\<exists>text pieces. (document meta, text) \<in> set texts \<and>
        split text (document meta) = Inr pieces \<and>
        chunk_id meta < length pieces \<and> pieces ! chunk_id meta = chunk \<and>
        total_chunks meta = length pieces)"

definition aligned ::
  "(string \<Rightarrow> string \<Rightarrow> py_error + string list) \<Rightarrow> (string \<times> string) list \<Rightarrow> string list \<Rightarrow>
   'a chunk_meta_scheme list \<Rightarrow> bool" where
  "aligned split texts all_chunks metadata =
     (length all_chunks = length metadata \<and>
      (\<forall>i<length all_chunks. made_from split texts (all_chunks ! i) (metadata ! i)))"

section \<open>Retrieval\<close>

text \<open>
  The vector index is a library (chromadb) fed by an embedding model. Its query is a
  parameter of the model: \<open>vquery collection query k\<close> stands for
  \<^verbatim>\<open>
    query_embedding = self.embedding_model.encode([query])
    results = self.vector_db.query(query_embeddings=query_embedding, n_results=k)
    results['documents'][0], results['metadatas'][0]
  \<close>
  and is \<open>Inl\<close> when any of these raises. Each caller wraps the lines in
  \<^verbatim>\<open>try ... except Exception\<close>.
\<close>

type_synonym 'm vquery = "'m collection \<Rightarrow> string \<Rightarrow> int \<Rightarrow> py_error + string list \<times> 'm list"

text \<open>
  \<^verbatim>\<open>PersistentBhutanRAG.search_documents\<close>:
  \<^verbatim>\<open>
    if not self.vector_db:
        return [], []
    try:
        ...
        return results['documents'][0], results['metadatas'][0]
    except Exception as e:
        return [], []
  \<close>
\<close>

definition search_documents ::
  "typed_meta vquery \<Rightarrow> persistent_rag \<Rightarrow> string \<Rightarrow> int \<Rightarrow> string list \<times> typed_meta list" where
  "search_documents vquery self query k =
     (case vector_db self of
        None \<Rightarrow> ([], [])
      | Some collection \<Rightarrow>
          (case vquery collection query k of
             Inl e \<Rightarrow> ([], [])
           | Inr results \<Rightarrow> results))"

text \<open>
  The fallback of \<^verbatim>\<open>BhutanLegalRAG.search_legal_documents\<close>:
  \<^verbatim>\<open>
    query_words = query.lower().split()
    scored_chunks = []
    for i, chunk in enumerate(self.chunks_fallback):
        score = sum(1 for word in query_words if word in chunk.lower())
        if score > 0:
            scored_chunks.append((score, chunk, self.metadata_fallback[i]))
    scored_chunks.sort(reverse=True, key=lambda x: x[0])
    top_results = scored_chunks[:k]
  \<close>
\<close>

fun simple_scores ::
  "string \<Rightarrow> string list \<Rightarrow> 'm list \<Rightarrow> nat \<Rightarrow> py_error + (int \<times> string \<times> 'm) list" where
  "simple_scores query [] metas i = Inr []"
| "simple_scores query (chunk # rest) metas i =
     (if 0 < word_matches query chunk \<and> length metas \<le> i then Inl IndexError
      else case simple_scores query rest metas (Suc i) of
             Inl e \<Rightarrow> Inl e
           | Inr scored \<Rightarrow>
               Inr (if 0 < word_matches query chunk
                    then (int (word_matches query chunk), chunk, metas ! i) # scored
                    else scored))"

definition simple_text_search ::
  "string list \<Rightarrow> 'm list \<Rightarrow> string \<Rightarrow> int \<Rightarrow> py_error + string list \<times> 'm list" where
  "simple_text_search chunks metas query k =
     (case simple_scores query chunks metas 0 of
        Inl e \<Rightarrow> Inl e
      | Inr scored_chunks \<Rightarrow>
          (let top_results = py_slice (sort_desc scored_chunks) 0 k
           in Inr (map (\<lambda>(_, chunk, _). chunk) top_results,
                   map (\<lambda>(_, _, meta). meta) top_results)))"

text \<open>
  \<^verbatim>\<open>BhutanLegalRAG.search_legal_documents\<close>: the vector search when the index is there and
  the query does not raise; else the text search over \<^verbatim>\<open>chunks_fallback\<close> when the object
  has that attribute; else two empty lists.
\<close>

definition search_legal_documents ::
  "chunk_meta vquery \<Rightarrow> legal_rag \<Rightarrow> string \<Rightarrow> int \<Rightarrow> py_error + string list \<times> chunk_meta list" where
  "search_legal_documents vquery self query k =
     (case (case vector_db self of
              None \<Rightarrow> None
            | Some collection \<Rightarrow>
                (case vquery collection query k of Inl e \<Rightarrow> None | Inr results \<Rightarrow> Some results)) of
        Some results \<Rightarrow> Inr results
      | None \<Rightarrow>
          (case chunks_fallback self of
             Some (chunks, metas) \<Rightarrow> simple_text_search chunks metas query k
           | None \<Rightarrow> Inr ([], [])))"

text \<open>
  \<^verbatim>\<open>BhutanLegalRAG.setup_vector_database\<close> is one \<^verbatim>\<open>try\<close> block of library calls; \<open>outcome\<close>
  is what the block does: it ends with a collection, or it raises. The handler is
  \<^verbatim>\<open>
    except Exception as e:
        self.vector_db = None
        self.chunks_fallback = chunks
        self.metadata_fallback = metadata
  \<close>
\<close>

definition setup_vector_database ::
  "py_error + chunk_meta collection \<Rightarrow> string list \<Rightarrow> chunk_meta list \<Rightarrow> legal_rag \<Rightarrow> legal_rag" where
  "setup_vector_database outcome chunks metadata self =
     (case outcome of
        Inr collection \<Rightarrow> self\<lparr>vector_db := Some collection\<rparr>
      | Inl e \<Rightarrow> self\<lparr>vector_db := None, chunks_fallback := Some (chunks, metadata)\<rparr>)"

text \<open>\<^verbatim>\<open>ImprovedBhutanRAG.search_documents\<close>: the vector search, else
  \<^verbatim>\<open>enhanced_text_search\<close> over the retained chunks.\<close>

definition improved_search_documents ::
  "enhanced_meta vquery \<Rightarrow> enhanced_meta rag \<Rightarrow> string \<Rightarrow> int \<Rightarrow>
   py_error + string list \<times> enhanced_meta list" where
  "improved_search_documents vquery self query k =
     (case (case vector_db self of
              None \<Rightarrow> None
            | Some collection \<Rightarrow>
                (case vquery collection query k of Inl e \<Rightarrow> None | Inr results \<Rightarrow> Some results)) of
        Some results \<Rightarrow> Inr results
      | None \<Rightarrow>
          enhanced_text_search (chunks_with_context self) (metadata_with_context self) query k)"

section \<open>Fingerprint, cache and initialization of \<^verbatim>\<open>PersistentBhutanRAG\<close>\<close>

text \<open>\<^verbatim>\<open>str(n)\<close> for a natural number: its decimal digits.\<close>

definition digit_char :: "nat \<Rightarrow> char" where
  "digit_char d = ''0123456789'' ! (d mod 10)"

function str_nat :: "nat \<Rightarrow> string" where
  "str_nat n = (if n < 10 then [digit_char n] else str_nat (n div 10) @ [digit_char (n mod 10)])"
  by pat_completeness auto
termination
  by (relation "measure id") auto

declare str_nat.simps [simp del]

text \<open>
  What lies outside the repository: the text PyPDF2 extracts from a file and the cleaning
  regular expressions leave (\<open>None\<close> when reading the file raises), whether the embedding
  model loads, whether chromadb opens its persistent client, whether encoding a batch
  raises, and the MD5 digest of \<^verbatim>\<open>hashlib\<close>.
\<close>

record env =
  pdf_text :: "string \<Rightarrow> string option"
  model_loads :: bool
  chroma_works :: bool
  encode_raises :: "string list \<Rightarrow> bool"
  md5 :: "string \<Rightarrow> string"

text \<open>
  \<^verbatim>\<open>get_documents_hash\<close>; \<open>docs_dir\<close> lists the files \<^verbatim>\<open>glob("*.pdf")\<close> yields, in directory
  order:
  \<^verbatim>\<open>
    pdf_files = sorted(self.docs_dir.glob("*.pdf"))
    hash_content = ""
    for pdf_file in pdf_files:
        stat = pdf_file.stat()
        hash_content += f"{pdf_file.name}:{stat.st_size}:{stat.st_mtime}:"
    return hashlib.md5(hash_content.encode()).hexdigest()
  \<close>
\<close>

definition hash_entry :: "pdf_file \<Rightarrow> string" where
  "hash_entry f = name f @ '':'' @ str_nat (st_size f) @ '':'' @ st_mtime f @ '':''"

definition hash_content :: "pdf_file list \<Rightarrow> string" where
  "hash_content docs = concat (map hash_entry (sort_key name docs))"

definition get_documents_hash :: "env \<Rightarrow> persistent_rag \<Rightarrow> string" where
  "get_documents_hash e self = md5 e (hash_content (docs_dir self))"

definition save_system_metadata :: "string \<Rightarrow> persistent_rag \<Rightarrow> persistent_rag" where
  "save_system_metadata docs_hash self =
     self\<lparr>metadata_cache :=
       Holds \<lparr>documents_hash = docs_hash, document_count = length (docs_dir self),
              chunks_count = length (chunks_with_context self), system_version = ''1.0''\<rparr>\<rparr>"

definition load_system_metadata :: "persistent_rag \<Rightarrow> system_metadata option" where
  "load_system_metadata self =
     (case metadata_cache self of Holds metadata \<Rightarrow> Some metadata | _ \<Rightarrow> None)"

text \<open>
  \<^verbatim>\<open>is_cache_valid\<close>: the stored fingerprint is the current one, and the three files
  \<^verbatim>\<open>legal_texts.json\<close>, \<^verbatim>\<open>chunks_data.pickle\<close> and \<^verbatim>\<open>embeddings.pickle\<close> exist.
\<close>

definition is_cache_valid :: "env \<Rightarrow> persistent_rag \<Rightarrow> bool" where
  "is_cache_valid e self =
     (case load_system_metadata self of
        None \<Rightarrow> False
      | Some metadata \<Rightarrow>
          if get_documents_hash e self \<noteq> documents_hash metadata then False
          else texts_cache self \<noteq> Missing \<and> chunks_cache self \<noteq> Missing
               \<and> embeddings_cache self)"

definition load_legal_texts :: "persistent_rag \<Rightarrow> (string \<times> string) list \<times> persistent_rag" where
  "load_legal_texts self =
     (case texts_cache self of
        Holds texts \<Rightarrow> (texts, self\<lparr>legal_texts := texts\<rparr>)
      | _ \<Rightarrow> ([], self))"

text \<open>\<^verbatim>\<open>d[k] = v\<close> on a dictionary kept as the list of its items in insertion order.\<close>

fun dict_set :: "'k \<Rightarrow> 'v \<Rightarrow> ('k \<times> 'v) list \<Rightarrow> ('k \<times> 'v) list" where
  "dict_set k v [] = [(k, v)]"
| "dict_set k v ((k', v') # d) = (if k' = k then (k, v) # d else (k', v') # dict_set k v d)"

text \<open>\<^verbatim>\<open>Path.stem\<close> of a file name that \<^verbatim>\<open>*.pdf\<close> matches.\<close>

definition stem :: "string \<Rightarrow> string" where
  "stem file_name = (if length file_name > 4 then take (length file_name - 4) file_name else file_name)"

text \<open>
  \<^verbatim>\<open>extract_text_from_pdfs\<close>: every file is handed to the text extractor; a text that is
  not blank is stored under the file's stem. The texts are then saved to
  \<^verbatim>\<open>legal_texts.json\<close>.
\<close>

fun extract_loop ::
  "env \<Rightarrow> pdf_file list \<Rightarrow> (string \<times> string) list \<times> event list \<Rightarrow>
   (string \<times> string) list \<times> event list" where
  "extract_loop e [] (texts, trace) = (texts, trace)"
| "extract_loop e (pdf # rest) (texts, trace) =
     extract_loop e rest
       (case pdf_text e (name pdf) of
          Some t \<Rightarrow> (if py_strip t \<noteq> [] then dict_set (stem (name pdf)) t texts else texts)
        | None \<Rightarrow> texts,
        trace @ [ExtractText (name pdf)])"

definition extract_text_from_pdfs ::
  "env \<Rightarrow> persistent_rag \<Rightarrow> (string \<times> string) list \<times> persistent_rag" where
  "extract_text_from_pdfs e self =
     (case extract_loop e (docs_dir self) ([], calls self) of
        (texts, trace) \<Rightarrow>
          (texts, self\<lparr>calls := trace, texts_cache := Holds texts, legal_texts := texts\<rparr>))"

definition setup_embedding_model :: "env \<Rightarrow> persistent_rag \<Rightarrow> bool \<times> persistent_rag" where
  "setup_embedding_model e self =
     (if model_loads e then (True, self\<lparr>embedding_model := True\<rparr>) else (False, self))"

text \<open>
  \<^verbatim>\<open>setup_persistent_vector_database\<close>: an existing collection is taken as it is; else a
  collection is created and filled in batches of 25, each batch encoded first:
  \<^verbatim>\<open>
    for i in range(0, len(chunks), batch_size):
        batch_chunks = chunks[i:i+batch_size]
        batch_metadata = metadata[i:i+batch_size]
        embeddings = self.embedding_model.encode(batch_chunks)
        collection.add(embeddings=..., documents=batch_chunks, metadatas=batch_metadata,
                       ids=[f"chunk_{i+j}" for j in range(len(batch_chunks))])
  \<close>
  \<open>add_batches\<close> is the loop from index \<open>i\<close> on; it carries the collection so far and
  the call trace, and says whether the loop ran to its end. \<^verbatim>\<open>encode\<close> raises when no
  model is loaded or the library fails, \<^verbatim>\<open>collection.add\<close> when the lists differ in
  length. Any exception ends the method with \<^verbatim>\<open>self.vector_db = None\<close> and \<^verbatim>\<open>False\<close>;
  what was added before stays in the persistent collection.
\<close>

function add_batches ::
  "env \<Rightarrow> bool \<Rightarrow> string list \<Rightarrow> typed_meta list \<Rightarrow> nat \<Rightarrow>
   typed_meta collection \<times> event list \<Rightarrow> bool \<times> typed_meta collection \<times> event list" where
  "add_batches e model chunks metadata i (collection, trace) =
     (if length chunks \<le> i then (True, collection, trace)
      else if \<not> model then (False, collection, trace)
      else if encode_raises e (py_slice chunks (int i) (int i + 25))
        then (False, collection, trace @ [Encode (py_slice chunks (int i) (int i + 25))])
      else if length (py_slice metadata (int i) (int i + 25))
                \<noteq> length (py_slice chunks (int i) (int i + 25))
        then (False, collection, trace @ [Encode (py_slice chunks (int i) (int i + 25))])
      else add_batches e model chunks metadata (i + 25)
             (collection @
                map (\<lambda>(j, chunk, meta). (''chunk_'' @ str_nat (i + j), chunk, meta))
                  (zip [0..<length (py_slice chunks (int i) (int i + 25))]
                     (zip (py_slice chunks (int i) (int i + 25))
                          (py_slice metadata (int i) (int i + 25)))),
              trace @ [Encode (py_slice chunks (int i) (int i + 25))]))"
  by pat_completeness auto
termination
  by (relation "measure (\<lambda>(e, model, chunks, metadata, i, acc). length chunks - i)") auto

declare add_batches.simps [simp del]

definition setup_persistent_vector_database ::
  "env \<Rightarrow> string list \<Rightarrow> typed_meta list \<Rightarrow> persistent_rag \<Rightarrow> bool \<times> persistent_rag" where
  "setup_persistent_vector_database e chunks metadata self =
     (if \<not> chroma_works e then (False, self\<lparr>vector_db := None\<rparr>)
      else case vector_db_dir self of
             Some collection \<Rightarrow> (True, self\<lparr>vector_db := Some collection\<rparr>)
           | None \<Rightarrow>
               (case add_batches e (embedding_model self) chunks metadata 0 ([], calls self) of
                  (True, collection, trace) \<Rightarrow>
                    (True, self\<lparr>vector_db := Some collection, vector_db_dir := Some collection,
                                calls := trace\<rparr>)
                | (False, collection, trace) \<Rightarrow>
                    (False, self\<lparr>vector_db := None, vector_db_dir := Some collection,
                                 calls := trace\<rparr>)))"

text \<open>
  \<^verbatim>\<open>initialize_system\<close>. \<open>rebuild\<close> is the part after the comment
  \<^verbatim>\<open># Need to process from scratch\<close>.
\<close>

definition rebuild :: "env \<Rightarrow> persistent_rag \<Rightarrow> py_error + bool \<times> persistent_rag" where
  "rebuild e self =
     (if docs_dir self = [] then Inr (False, self)
      else case extract_text_from_pdfs e self of
        (texts, self1) \<Rightarrow>
          if texts = [] then Inr (False, self1)
          else case create_chunks texts self1 of
            Inl err \<Rightarrow> Inl err
          | Inr ((chunks, metadata), self2) \<Rightarrow>
              (case setup_embedding_model e self2 of
                 (False, self3) \<Rightarrow> Inr (False, self3)
               | (True, self3) \<Rightarrow>
                   (case setup_persistent_vector_database e chunks metadata self3 of
                      (False, self4) \<Rightarrow> Inr (False, self4)
                    | (True, self4) \<Rightarrow>
                        Inr (True, save_system_metadata (get_documents_hash e self4) self4))))"

definition initialize_system :: "env \<Rightarrow> persistent_rag \<Rightarrow> py_error + bool \<times> persistent_rag" where
  "initialize_system e self =
     (if is_cache_valid e self then
        (case load_legal_texts self of
           (texts, self1) \<Rightarrow>
             (case load_chunks_data self1 of
                ((chunks, metadata), self2) \<Rightarrow>
                  if texts \<noteq> [] \<and> chunks \<noteq> [] then
                    (case setup_embedding_model e self2 of
                       (False, self3) \<Rightarrow> Inr (False, self3)
                     | (True, self3) \<Rightarrow>
                         (case setup_persistent_vector_database e chunks metadata self3 of
                            (False, self4) \<Rightarrow> Inr (False, self4)
                          | (True, self4) \<Rightarrow> Inr (True, self4)))
                  else rebuild e self2))
      else rebuild e self)"

text \<open>A new process: \<^verbatim>\<open>__init__\<close> builds a fresh object over the directories as they are.\<close>

definition restart :: "persistent_rag \<Rightarrow> persistent_rag" where
  "restart self =
     self\<lparr>chunks_with_context := [], metadata_with_context := [], vector_db := None,
          legal_texts := [], embedding_model := False, calls := []\<rparr>"

text \<open>\<^verbatim>\<open>main\<close>, up to the interactive loop, run over the directories of \<open>self\<close>:
  \<^verbatim>\<open>
    rag_system = PersistentBhutanRAG()
    if rag_system.initialize_system(): ...
  \<close>
\<close>

definition main :: "env \<Rightarrow> persistent_rag \<Rightarrow> py_error + bool \<times> persistent_rag" where
  "main e self = initialize_system e (restart self)"

text \<open>A documents directory with one PDF whose text is one chunk, and surroundings in
  which every library call succeeds; \<open>digest\<close> is the MD5 function.\<close>

definition example_docs :: "pdf_file list" where
  "example_docs =
     [\<lparr>name = ''Constitution_2008.pdf'', st_size = 52301, st_mtime = ''1700000000.5''\<rparr>]"

definition example_env :: "(string \<Rightarrow> string) \<Rightarrow> env" where
  "example_env digest =
     \<lparr>pdf_text = (\<lambda>file_name. Some ''Article 1. All citizens shall have the right to freedom of speech, opinion and expression under this Constitution.''),
      model_loads = True, chroma_works = True, encode_raises = (\<lambda>batch. False),
      md5 = digest\<rparr>"

text \<open>Reading decimal digits back, to show that \<open>str_nat\<close> loses nothing.\<close>

definition digit_val :: "char \<Rightarrow> nat" where
  "digit_val c = length (takeWhile (\<lambda>d. d \<noteq> c) ''0123456789'')"

definition nat_of_digits :: "string \<Rightarrow> nat" where
  "nat_of_digits s = foldl (\<lambda>a c. 10 * a + digit_val c) 0 s"

text \<open>The three fields of a document that enter the fingerprint, as texts.\<close>

definition hash_fields :: "pdf_file \<Rightarrow> string list" where
  "hash_fields f = [name f, str_nat (st_size f), st_mtime f]"

text \<open>No colon in the name and in the modification time of any listed document.\<close>

definition colon_free :: "pdf_file list \<Rightarrow> bool" where
  "colon_free docs = (\<forall>f\<in>set docs. CHR '':'' \<notin> set (name f) \<and> CHR '':'' \<notin> set (st_mtime f))"

section \<open>Answering a question\<close>

text \<open>More of Python's strings: \<^verbatim>\<open>s.split(c)\<close> for a separator character (empty pieces
  are kept), \<^verbatim>\<open>s.replace(a, b)\<close> for characters, and \<^verbatim>\<open>any(k in s for k in ks)\<close>.\<close>

fun split_on_from :: "char \<Rightarrow> string \<Rightarrow> string \<Rightarrow> string list" where
  "split_on_from sep [] cur = [rev cur]"
| "split_on_from sep (c # cs) cur =
     (if c = sep then rev cur # split_on_from sep cs [] else split_on_from sep cs (c # cur))"

definition py_split_on :: "char \<Rightarrow> string \<Rightarrow> string list" where
  "py_split_on sep s = split_on_from sep s []"

definition py_replace :: "char \<Rightarrow> char \<Rightarrow> string \<Rightarrow> string" where
  "py_replace a b s = map (\<lambda>c. if c = a then b else c) s"

definition any_in :: "string list \<Rightarrow> string \<Rightarrow> bool" where
  "any_in ks s = list_ex (\<lambda>k. py_in k s) ks"

text \<open>\<^verbatim>\<open>context_docs[0][:n]\<close>, which raises \<^verbatim>\<open>IndexError\<close> on an empty list.\<close>

definition first_doc :: "string list \<Rightarrow> nat \<Rightarrow> py_error + string" where
  "first_doc context_docs n =
     (case context_docs of [] \<Rightarrow> Inl IndexError | doc # _ \<Rightarrow> Inr (take n doc))"

text \<open>\<^verbatim>\<open>for doc, meta in zip(context_docs, metadata)\<close> with a \<^verbatim>\<open>return\<close> in its body: the
  first pair for which the body returns.\<close>

fun first_match :: "(string \<Rightarrow> 'm \<Rightarrow> string option) \<Rightarrow> string list \<Rightarrow> 'm list \<Rightarrow> string option" where
  "first_match body (doc # docs) (meta # metas) =
     (case body doc meta of Some answer \<Rightarrow> Some answer | None \<Rightarrow> first_match body docs metas)"
| "first_match body docs metas = None"

text \<open>The result dictionaries, as the list of their items.\<close>

datatype pyval = Str string | StrList "string list" | Bool bool | Float rat

type_synonym answer = "(string \<times> pyval) list"

text \<open>\<^verbatim>\<open>list(set(meta['document'].replace('_', ' ') for meta in metadata))\<close>; the order of a
  set is not fixed, the model keeps the order of first occurrence.\<close>

definition sources_of :: "'a chunk_meta_scheme list \<Rightarrow> string list" where
  "sources_of metadata = remdups (map (\<lambda>meta. py_replace CHR ''_'' CHR '' '' (document meta)) metadata)"

subsection \<open>\<^verbatim>\<open>PersistentBhutanRAG\<close>\<close>

text \<open>
  \<^verbatim>\<open>generate_fallback_response\<close>:
  \<^verbatim>\<open>
    for doc, meta in zip(context_docs, metadata):
        sentences = [s.strip() for s in doc.split('.') if len(s.strip()) > 20]
        query_words = query_lower.split()
        relevant_sentences = [s for s in sentences
                              if any(word in s.lower() for word in query_words)]
        if relevant_sentences:
            doc_name = meta['document'].replace('_', ' ')
            return f"According to {doc_name}: {'. '.join(relevant_sentences[:2])}."
    return f"Based on Bhutan's legal documents: {context_docs[0][:400]}..."
  \<close>
\<close>

definition relevant_sentences :: "string \<Rightarrow> string \<Rightarrow> string list" where
  "relevant_sentences query doc =
     filter (\<lambda>sentence. any_in (py_split (py_lower query)) (py_lower sentence))
       (map py_strip (filter (\<lambda>s. length (py_strip s) > 20) (py_split_on CHR ''.'' doc)))"

definition generate_fallback_response ::
  "string \<Rightarrow> string list \<Rightarrow> 'a chunk_meta_scheme list \<Rightarrow> py_error + string" where
  "generate_fallback_response query context_docs metadata =
     (case first_match
             (\<lambda>doc meta.
                if relevant_sentences query doc \<noteq> []
                then Some (''According to '' @ py_replace CHR ''_'' CHR '' '' (document meta) @ '': ''
                           @ py_join ''. '' (take 2 (relevant_sentences query doc)) @ ''.'')
                else None)
             context_docs metadata of
        Some answer \<Rightarrow> Inr answer
      | None \<Rightarrow>
          (case first_doc context_docs 400 of
             Inl e \<Rightarrow> Inl e
           | Inr start \<Rightarrow> Inr (''Based on Bhutan'' @ [CHR 0x27] @ ''s legal documents: '' @ start @ ''...'')))"

text \<open>
  The generative service is outside the repository: \<open>gemini\<close> is \<open>None\<close> when no client is
  configured, and else maps the context text and the question to the text of the
  response (empty when the response has none) or raises. Whatever it raises is caught and
  the fallback answers.
\<close>

type_synonym gemini = "(string \<Rightarrow> string \<Rightarrow> py_error + string) option"

definition context_text :: "string list \<Rightarrow> 'a chunk_meta_scheme list \<Rightarrow> string" where
  "context_text context_docs metadata =
     py_join [CHR 0x0A]
       (map (\<lambda>(doc, meta). ''Document: '' @ document meta @ [CHR 0x0A] @ ''Content: ''
                            @ take 800 doc @ ''...'')
          (zip (take 3 context_docs) (take 3 metadata)))"

definition generate_response ::
  "gemini \<Rightarrow> string \<Rightarrow> string list \<Rightarrow> 'a chunk_meta_scheme list \<Rightarrow> py_error + string" where
  "generate_response gemini_client query context_docs metadata =
     (if context_docs = [] then Inr ''No relevant legal information found.''
      else case gemini_client of
        None \<Rightarrow> generate_fallback_response query context_docs metadata
      | Some generate \<Rightarrow>
          (case generate (context_text context_docs metadata) query of
             Inr response_text \<Rightarrow>
               if response_text \<noteq> [] then Inr (py_strip response_text)
               else generate_fallback_response query context_docs metadata
           | Inl e \<Rightarrow> generate_fallback_response query context_docs metadata))"

text \<open>
  \<^verbatim>\<open>PersistentBhutanRAG.ask_legal_question\<close>:
  \<^verbatim>\<open>
    relevant_docs, metadata = self.search_documents(question)
    if not relevant_docs:
        return {"question": question, "answer": "No relevant legal information found.",
                "sources": [], "ai_powered": False}
    answer = self.generate_response(question, relevant_docs, metadata)
    sources = list(set(meta['document'].replace('_', ' ') for meta in metadata))
    return {"question": question, "answer": answer, "sources": sources,
            "ai_powered": bool(self.gemini_client)}
  \<close>
\<close>

definition ask_legal_question ::
  "typed_meta vquery \<Rightarrow> gemini \<Rightarrow> persistent_rag \<Rightarrow> string \<Rightarrow> py_error + answer" where
  "ask_legal_question vquery gemini_client self question =
     (case search_documents vquery self question 5 of
        (relevant_docs, metadata) \<Rightarrow>
          if relevant_docs = [] then
            Inr [(''question'', Str question),
                 (''answer'', Str ''No relevant legal information found.''),
                 (''sources'', StrList []),
                 (''ai_powered'', Bool False)]
          else case generate_response gemini_client question relevant_docs metadata of
            Inl e \<Rightarrow> Inl e
          | Inr answer \<Rightarrow>
              Inr [(''question'', Str question),
                   (''answer'', Str answer),
                   (''sources'', StrList (sources_of metadata)),
                   (''ai_powered'', Bool (gemini_client \<noteq> None))])"

subsection \<open>\<^verbatim>\<open>ImprovedBhutanRAG\<close>\<close>

text \<open>
  The five topic extractors of \<^verbatim>\<open>ImprovedBhutanRAG\<close> have one shape:
  \<^verbatim>\<open>
    for doc, meta in zip(context_docs, metadata):
        sentences = doc.split('.')
        found = [s.strip() for s in sentences
                 if any(keyword in s.lower() for keyword in KEYWORDS)]
        if found:
            return f"PREFIX{'. '.join(found[:n])}."
    return f"FALLBACK{context_docs[0][:200]}..."
  \<close>
  \<^verbatim>\<open>extract_rights_info\<close> looks only at documents whose name contains
  \<^verbatim>\<open>constitution\<close>, and \<^verbatim>\<open>extract_penalty_info\<close> puts the document name in its prefix.
\<close>

definition keyword_sentences :: "string list \<Rightarrow> string \<Rightarrow> string list" where
  "keyword_sentences keywords doc =
     map py_strip (filter (\<lambda>s. any_in keywords (py_lower s)) (py_split_on CHR ''.'' doc))"

definition or_first_doc :: "string option \<Rightarrow> string \<Rightarrow> string list \<Rightarrow> nat \<Rightarrow> py_error + string" where
  "or_first_doc found fallback context_docs n =
     (case found of
        Some answer \<Rightarrow> Inr answer
      | None \<Rightarrow>
          (case first_doc context_docs n of
             Inl e \<Rightarrow> Inl e
           | Inr start \<Rightarrow> Inr (fallback @ start @ ''...'')))"

definition extract_rights_info ::
  "string list \<Rightarrow> 'a chunk_meta_scheme list \<Rightarrow> py_error + string" where
  "extract_rights_info context_docs metadata =
     or_first_doc
       (first_match
          (\<lambda>doc meta.
             if py_in ''constitution'' (py_lower (document meta))
                \<and> keyword_sentences [''right'', ''freedom'', ''liberty'', ''shall have''] doc \<noteq> []
             then Some (''According to Bhutan'' @ [CHR 0x27]
                        @ ''s Constitution, the fundamental rights include: ''
                        @ py_join ''. '' (take 3 (keyword_sentences
                            [''right'', ''freedom'', ''liberty'', ''shall have''] doc)) @ ''.'')
             else None)
          context_docs metadata)
       (''Based on Bhutan'' @ [CHR 0x27] @ ''s legal documents: '') context_docs 200"

definition extract_penalty_info ::
  "string list \<Rightarrow> 'a chunk_meta_scheme list \<Rightarrow> py_error + string" where
  "extract_penalty_info context_docs metadata =
     or_first_doc
       (first_match
          (\<lambda>doc meta.
             if keyword_sentences [''penalty'', ''fine'', ''imprisonment'', ''punish'', ''sentence''] doc \<noteq> []
             then Some (''According to '' @ py_replace CHR ''_'' CHR '' '' (document meta) @ '': ''
                        @ py_join ''. '' (take 2 (keyword_sentences
                            [''penalty'', ''fine'', ''imprisonment'', ''punish'', ''sentence''] doc)) @ ''.'')
             else None)
          context_docs metadata)
       ''Based on the legal provisions: '' context_docs 200"

definition extract_topic_info ::
  "string list \<Rightarrow> string \<Rightarrow> string \<Rightarrow> string list \<Rightarrow> 'a chunk_meta_scheme list \<Rightarrow> py_error + string" where
  "extract_topic_info keywords prefix fallback context_docs metadata =
     or_first_doc
       (first_match
          (\<lambda>doc meta.
             if keyword_sentences keywords doc \<noteq> []
             then Some (prefix @ py_join ''. '' (take 2 (keyword_sentences keywords doc)) @ ''.'')
             else None)
          context_docs metadata)
       fallback context_docs 200"

definition extract_citizenship_info ::
  "string list \<Rightarrow> 'a chunk_meta_scheme list \<Rightarrow> py_error + string" where
  "extract_citizenship_info =
     extract_topic_info [''citizen'', ''citizenship'', ''national'', ''domiciled'']
       ''Regarding citizenship in Bhutan: '' (''Based on Bhutan'' @ [CHR 0x27] @ ''s legal framework: '')"

definition extract_environment_info ::
  "string list \<Rightarrow> 'a chunk_meta_scheme list \<Rightarrow> py_error + string" where
  "extract_environment_info =
     extract_topic_info [''environment'', ''forest'', ''natural'', ''conservation'', ''pollution'']
       (''Bhutan'' @ [CHR 0x27] @ ''s environmental laws state: '') ''Based on environmental provisions: ''"

definition extract_election_info ::
  "string list \<Rightarrow> 'a chunk_meta_scheme list \<Rightarrow> py_error + string" where
  "extract_election_info =
     extract_topic_info [''election'', ''vote'', ''ballot'', ''candidate'', ''assembly'']
       ''Regarding elections in Bhutan: '' ''Based on election laws: ''"

text \<open>
  \<^verbatim>\<open>extract_general_info\<close>:
  \<^verbatim>\<open>
    query_words = query.lower().split()
    best_sentences = []
    for doc in context_docs:
        for sentence in doc.split('.'):
            if len(sentence.strip()) > 20:
                score = sum(1 for word in query_words if word in sentence.lower())
                if score > 0:
                    best_sentences.append((score, sentence.strip()))
    if best_sentences:
        best_sentences.sort(reverse=True, key=lambda x: x[0])
        top_sentences = [s for _, s in best_sentences[:2]]
        return f"According to Bhutan's legal documents: {'. '.join(top_sentences)}."
    return f"Based on the available legal text: {context_docs[0][:300]}..."
  \<close>
\<close>

definition best_sentences :: "string \<Rightarrow> string list \<Rightarrow> (int \<times> string) list" where
  "best_sentences query context_docs =
     concat (map (\<lambda>doc.
        map (\<lambda>sentence. (int (word_matches query sentence), py_strip sentence))
          (filter (\<lambda>sentence. length (py_strip sentence) > 20 \<and> 0 < word_matches query sentence)
             (py_split_on CHR ''.'' doc)))
        context_docs)"

definition extract_general_info ::
  "string list \<Rightarrow> 'a chunk_meta_scheme list \<Rightarrow> string \<Rightarrow> py_error + string" where
  "extract_general_info context_docs metadata query =
     or_first_doc
       (if best_sentences query context_docs \<noteq> []
        then Some (''According to Bhutan'' @ [CHR 0x27] @ ''s legal documents: ''
                   @ py_join ''. '' (map snd (take 2 (sort_desc (best_sentences query context_docs))))
                   @ ''.'')
        else None)
       ''Based on the available legal text: '' context_docs 300"

definition extract_legal_answer ::
  "string \<Rightarrow> string list \<Rightarrow> 'a chunk_meta_scheme list \<Rightarrow> py_error + string" where
  "extract_legal_answer query context_docs metadata =
     (let query_lower = py_lower query in
      if py_in ''rights'' query_lower \<or> py_in ''fundamental'' query_lower
        then extract_rights_info context_docs metadata
      else if py_in ''penalty'' query_lower \<or> py_in ''punishment'' query_lower
        then extract_penalty_info context_docs metadata
      else if py_in ''citizenship'' query_lower then extract_citizenship_info context_docs metadata
      else if py_in ''environment'' query_lower then extract_environment_info context_docs metadata
      else if py_in ''election'' query_lower then extract_election_info context_docs metadata
      else extract_general_info context_docs metadata query)"

text \<open>
  \<^verbatim>\<open>format_legal_answer\<close>:
  \<^verbatim>\<open>
    if len(answer) < 20:
        return self.extract_general_info(context_docs, metadata, "")
    formatted_answer = f"{answer}"
    if len(formatted_answer) < 50:
        formatted_answer += f" {context_docs[0][:200]}..."
    return formatted_answer
  \<close>
\<close>

definition format_legal_answer ::
  "string \<Rightarrow> string list \<Rightarrow> 'a chunk_meta_scheme list \<Rightarrow> py_error + string" where
  "format_legal_answer answer context_docs metadata =
     (if length answer < 20 then extract_general_info context_docs metadata []
      else if length answer < 50 then
        (case first_doc context_docs 200 of
           Inl e \<Rightarrow> Inl e
         | Inr start \<Rightarrow> Inr (answer @ '' '' @ start @ ''...''))
      else Inr answer)"

text \<open>
  \<^verbatim>\<open>generate_enhanced_response\<close>. The question-answering pipeline is a library: \<open>qa\<close> is
  \<open>None\<close> unless \<^verbatim>\<open>self.qa_pipeline\<close> is set and has the attribute \<^verbatim>\<open>model_name\<close>, and else
  maps the question and the context to the answer text and to whether the score exceeds
  0.1, or raises. Whatever it raises is caught and the extractive answer is given.
\<close>

type_synonym qa = "(string \<Rightarrow> string \<Rightarrow> py_error + string \<times> bool) option"

definition combine_legal_context :: "string list \<Rightarrow> 'a chunk_meta_scheme list \<Rightarrow> string" where
  "combine_legal_context context_docs metadata =
     py_join [CHR 0x0A]
       (map (\<lambda>(doc, meta). ''From '' @ py_replace CHR ''_'' CHR '' '' (document meta) @ '':''
                            @ [CHR 0x0A] @ doc @ [CHR 0x0A])
          (zip context_docs metadata))"

definition generate_enhanced_response ::
  "qa \<Rightarrow> string \<Rightarrow> string list \<Rightarrow> 'a chunk_meta_scheme list \<Rightarrow> py_error + string" where
  "generate_enhanced_response qa_pipeline query context_docs metadata =
     (if context_docs = []
      then Inr ''No relevant legal information found in the available documents.''
      else case (case qa_pipeline of
                   None \<Rightarrow> None
                 | Some ask \<Rightarrow>
                     (case ask query (take 2000 (combine_legal_context context_docs metadata)) of
                        Inl e \<Rightarrow> None
                      | Inr (answer, confident) \<Rightarrow>
                          if py_strip answer \<noteq> [] \<and> confident
                          then (case format_legal_answer (py_strip answer) context_docs metadata of
                                  Inl e \<Rightarrow> None
                                | Inr formatted \<Rightarrow> Some formatted)
                          else None)) of
        Some formatted \<Rightarrow> Inr formatted
      | None \<Rightarrow> extract_legal_answer query context_docs metadata)"

text \<open>
  \<^verbatim>\<open>ImprovedBhutanRAG.ask_legal_question\<close>:
  \<^verbatim>\<open>
    relevant_docs, metadata = self.search_documents(question)
    if not relevant_docs:
        return {"question": question,
                "answer": "No relevant legal information found in the available documents.",
                "sources": [], "confidence": 0.0}
    answer = self.generate_enhanced_response(question, relevant_docs, metadata)
    sources = list(set(meta.get('document', 'Unknown').replace('_', ' ') for meta in metadata))
    return {"question": question, "answer": answer, "sources": sources,
            "relevant_excerpts": relevant_docs[:2],
            "confidence": min(len(relevant_docs) / 5.0, 1.0)}
  \<close>
\<close>

definition improved_ask_legal_question ::
  "enhanced_meta vquery \<Rightarrow> qa \<Rightarrow> enhanced_meta rag \<Rightarrow> string \<Rightarrow> py_error + answer" where
  "improved_ask_legal_question vquery qa_pipeline self question =
     (case improved_search_documents vquery self question 5 of
        Inl e \<Rightarrow> Inl e
      | Inr (relevant_docs, metadata) \<Rightarrow>
          if relevant_docs = [] then
            Inr [(''question'', Str question),
                 (''answer'', Str ''No relevant legal information found in the available documents.''),
                 (''sources'', StrList []),
                 (''confidence'', Float 0)]
          else case generate_enhanced_response qa_pipeline question relevant_docs metadata of
            Inl e \<Rightarrow> Inl e
          | Inr answer \<Rightarrow>
              Inr [(''question'', Str question),
                   (''answer'', Str answer),
                   (''sources'', StrList (sources_of metadata)),
                   (''relevant_excerpts'', StrList (take 2 relevant_docs)),
                   (''confidence'', Float (min (rat_of_nat (length relevant_docs) / 5) 1))])"

section \<open>Properties of the chunker\<close>

lemma split_from_words:
  "\<forall>c\<in>set cur. \<not> is_space c \<Longrightarrow> \<forall>w\<in>set (split_from s cur). word_ok w"
proof (induction s arbitrary: cur)
  case Nil
  then show ?case by (simp add: word_ok_def)
next
  case (Cons c cs)
  show ?case
  proof (cases "is_space c")
    case True
    have "\<forall>w\<in>set (split_from cs []). word_ok w" by (rule Cons.IH) simp
    with True Cons.prems show ?thesis by (simp add: word_ok_def)
  next
    case False
    with Cons.prems have "\<forall>w\<in>set (split_from cs (c # cur)). word_ok w"
      by (intro Cons.IH) simp
    with False show ?thesis by simp
  qed
qed

lemma py_split_words: "w \<in> set (py_split s) \<Longrightarrow> word_ok w"
  unfolding py_split_def using split_from_words[of "[]" s] by simp

lemma split_from_append_word:
  "\<forall>c\<in>set w. \<not> is_space c \<Longrightarrow> split_from (w @ r) cur = split_from r (rev w @ cur)"
  by (induction w arbitrary: cur) simp_all

lemma space_is_space: "is_space CHR '' ''"
  by (simp add: is_space_def)

lemma split_from_join:
  "\<forall>w\<in>set ws. word_ok w \<Longrightarrow> split_from (py_join '' '' ws) [] = ws"
proof (induction ws rule: induct_list012)
  case 1
  then show ?case by simp
next
  case (2 w)
  then have "split_from (w @ []) [] = split_from [] (rev w @ [])"
    by (intro split_from_append_word) (simp add: word_ok_def)
  with 2 show ?case by (simp add: word_ok_def)
next
  case (3 w v ws)
  then have "split_from (w @ ('' '' @ py_join '' '' (v # ws))) [] = split_from ('' '' @ py_join '' '' (v # ws)) (rev w @ [])"
    by (intro split_from_append_word) (simp add: word_ok_def)
  with 3 show ?case by (simp add: word_ok_def space_is_space)
qed

lemma py_strip_Nil_iff: "py_strip s = [] \<longleftrightarrow> (\<forall>c\<in>set s. is_space c)"
proof
  assume "py_strip s = []"
  then have a: "\<forall>c\<in>set (dropWhile is_space s). is_space c"
    by (simp add: py_strip_def dropWhile_eq_Nil_conv)
  show "\<forall>c\<in>set s. is_space c"
  proof (cases "dropWhile is_space s")
    case Nil
    then show ?thesis by (simp add: dropWhile_eq_Nil_conv)
  next
    case (Cons c cs)
    then have "\<not> is_space c" using hd_dropWhile[of is_space s] by simp
    with a Cons show ?thesis by simp
  qed
next
  assume "\<forall>c\<in>set s. is_space c"
  then show "py_strip s = []" by (auto simp: py_strip_def dest: set_dropWhileD)
qed

lemma py_join_hd: "ws \<noteq> [] \<Longrightarrow> hd ws \<noteq> [] \<Longrightarrow> py_join sep ws \<noteq> [] \<and> hd (py_join sep ws) = hd (hd ws)"
  by (induction ws rule: induct_list012) simp_all

lemma py_strip_join:
  assumes "ws \<noteq> []" "\<forall>w\<in>set ws. word_ok w"
  shows "py_strip (py_join sep ws) \<noteq> []"
proof -
  from assms have h: "hd ws \<noteq> []" "\<not> is_space (hd (hd ws))"
    by (cases ws; simp add: word_ok_def)+
  from py_join_hd[OF assms(1) h(1), of sep]
  have j: "py_join sep ws \<noteq> []" "hd (py_join sep ws) = hd (hd ws)" by simp_all
  from j(1) have "hd (py_join sep ws) \<in> set (py_join sep ws)" by (rule hd_in_set)
  moreover from j(2) h(2) have "\<not> is_space (hd (py_join sep ws))" by simp
  ultimately have "hd (py_join sep ws) \<in> set (py_join sep ws)" "\<not> is_space (hd (py_join sep ws))"
    by simp_all
  then show ?thesis unfolding py_strip_Nil_iff by blast
qed

lemma py_slice_window:
  "i < length xs \<Longrightarrow> 0 < c \<Longrightarrow> py_slice xs (int i) (int i + c) = take (nat c) (drop i xs)"
  by (simp add: py_slice_def clamp_index_def Let_def min_def nat_add_distrib)


lemma window_words_ok:
  assumes "\<forall>w\<in>set words. word_ok w"
  shows "\<forall>w\<in>set (take n (drop i words)). word_ok w"
  using assms by (meson in_set_dropD in_set_takeD)

lemma chunk_loop_step:
  assumes "0 < step" "0 < cs" "i < length words" "\<forall>w\<in>set words. word_ok w"
  shows "chunk_loop words cs step i =
           py_join '' '' (take (nat cs) (drop i words)) #
           (if int (length words) \<le> int i + cs then []
            else chunk_loop words cs step (i + nat step))"
proof -
  from assms(2,3) have ne: "take (nat cs) (drop i words) \<noteq> []" by simp
  have "py_strip (py_join '' '' (take (nat cs) (drop i words))) \<noteq> []"
    by (rule py_strip_join[OF ne window_words_ok[OF assms(4)]])
  with assms(1-3) show ?thesis
    by (subst chunk_loop.simps) (simp add: py_slice_window)
qed

lemma chunk_loop_length:
  assumes "0 < step" "step \<le> cs" "\<forall>w\<in>set words. word_ok w"
  shows "i < length words \<Longrightarrow>
         int (length (chunk_loop words cs step i)) =
           (if int (length words) \<le> int i + cs then 1
            else 1 - ((int i + cs - int (length words)) div step))"
proof (induction "length words - i" arbitrary: i rule: less_induct)
  case less
  from assms have cs: "0 < cs" by simp
  note st = chunk_loop_step[OF assms(1) cs less.prems assms(3)]
  show ?case
  proof (cases "int (length words) \<le> int i + cs")
    case True
    with st show ?thesis by simp
  next
    case False
    let ?j = "i + nat step"
    from False assms have j: "?j < length words" by linarith
    from assms(1) less.prems have "length words - ?j < length words - i" by linarith
    from less.hyps[OF this j]
    have IH: "int (length (chunk_loop words cs step ?j)) =
           (if int (length words) \<le> int ?j + cs then 1
            else 1 - ((int ?j + cs - int (length words)) div step))" .
    have ij: "int ?j = int i + step" using assms(1) by linarith
    have IH': "int (length (chunk_loop words cs step ?j)) =
           (if int (length words) \<le> int i + step + cs then 1
            else 1 - ((int i + step + cs - int (length words)) div step))"
      using IH unfolding ij .
    define a where "a = int (length words) - int i - cs"
    have a: "0 < a" using False by (simp add: a_def)
    have e1: "int i + cs - int (length words) = - a" by (simp add: a_def)
    have e2: "int i + step + cs - int (length words) = step - a" by (simp add: a_def)
    have d: "(step - a) div step = 1 + (- a) div step"
      using assms(1) by (metis add.commute div_add_self1 diff_conv_add_uminus less_irrefl)
    have st': "int (length (chunk_loop words cs step i)) = 1 + int (length (chunk_loop words cs step ?j))"
      using st False by simp
    have R: "(if int (length words) \<le> int i + cs then 1
            else 1 - ((int i + cs - int (length words)) div step)) = 1 - (- a) div step"
      using False by (simp only: e1 if_False)
    show ?thesis
    proof (cases "int (length words) \<le> int i + step + cs")
      case True
      then have "a \<le> step" by (simp add: a_def)
      have "(- a) div step = -1"
      proof (cases "a = step")
        case True
        with assms(1) show ?thesis by (simp add: zdiv_zminus1_eq_if)
      next
        case False
        with \<open>a \<le> step\<close> have "a < step" by simp
        with a show ?thesis by (simp add: zdiv_zminus1_eq_if)
      qed
      moreover from IH' True have "int (length (chunk_loop words cs step ?j)) = 1" by simp
      ultimately show ?thesis unfolding R st' by simp
    next
      case F2: False
      with IH' have "int (length (chunk_loop words cs step ?j)) =
          1 - ((int i + step + cs - int (length words)) div step)" by simp
      then have "int (length (chunk_loop words cs step ?j)) = 1 - (step - a) div step"
        by (simp only: e2)
      then show ?thesis unfolding R st' d by simp
    qed
  qed
qed


lemma chunk_loop_elems:
  "c \<in> set (chunk_loop words cs step i) \<Longrightarrow>
     \<exists>j<length words. c = py_join '' '' (py_slice words (int j) (int j + cs))"
proof (induction "length words - i" arbitrary: i rule: less_induct)
  case less
  show ?case
  proof (cases "step \<le> 0 \<or> length words \<le> i")
    case True
    with less.prems show ?thesis by (subst (asm) chunk_loop.simps) simp
  next
    case False
    then have i: "i < length words" and s: "0 < step" by simp_all
    from less.prems False
    consider "c = py_join '' '' (py_slice words (int i) (int i + cs))"
      | "\<not> int (length words) \<le> int i + cs" "c \<in> set (chunk_loop words cs step (i + nat step))"
      by (subst (asm) chunk_loop.simps) (auto split: if_splits)
    then show ?thesis
    proof cases
      case 1
      with i show ?thesis by blast
    next
      case 2
      from s i have "length words - (i + nat step) < length words - i" by linarith
      from less.hyps[OF this 2(2)] show ?thesis .
    qed
  qed
qed

lemma chunk_loop_words:
  assumes "0 < cs" "\<forall>w\<in>set words. word_ok w" "c \<in> set (chunk_loop words cs step i)"
  shows "int (length (py_split c)) \<le> cs"
proof -
  from chunk_loop_elems[OF assms(3)] obtain j where j: "j < length words"
    and c: "c = py_join '' '' (py_slice words (int j) (int j + cs))" by blast
  from c j assms(1) have "c = py_join '' '' (take (nat cs) (drop j words))"
    by (simp add: py_slice_window)
  then have "py_split c = take (nat cs) (drop j words)"
    unfolding py_split_def using split_from_join[OF window_words_ok[OF assms(2)]] by simp
  with assms(1) show ?thesis by simp
qed

lemma ceiling_window:
  fixes W overlap chunk_size :: int
  assumes "overlap < W" "overlap < chunk_size"
  shows "\<lceil>real_of_int (W - overlap) / real_of_int (chunk_size - overlap)\<rceil> =
           (if W \<le> chunk_size then 1 else 1 - ((chunk_size - W) div (chunk_size - overlap)))"
proof -
  define step where "step = chunk_size - overlap"
  have s: "0 < step" using assms by (simp add: step_def)
  have c: "\<lceil>real_of_int (W - overlap) / real_of_int step\<rceil> = - ((overlap - W) div step)"
    by (simp only: ceiling_divide_eq_div minus_diff_eq)
  have o: "overlap - W = (chunk_size - W) - step" by (simp add: step_def)
  from s have "step \<noteq> 0" by simp
  from div_add_self2[OF this, of "chunk_size - W - step"]
  have d: "((chunk_size - W) - step) div step = (chunk_size - W) div step - 1" by simp
  show ?thesis
  proof (cases "W \<le> chunk_size")
    case True
    define a where "a = W - overlap"
    have a: "0 < a" "a \<le> step" using assms True by (simp_all add: a_def step_def)
    have "(- a) div step = -1"
    proof (cases "a = step")
      case True
      with s show ?thesis by (simp add: zdiv_zminus1_eq_if)
    next
      case False
      with a have "a < step" by simp
      with a show ?thesis by (simp add: zdiv_zminus1_eq_if)
    qed
    moreover have "overlap - W = - a" by (simp add: a_def)
    ultimately show ?thesis using True c unfolding step_def by simp
  next
    case False
    then show ?thesis using c d unfolding o step_def by simp
  qed
qed

text \<open>
  Claim C1, as the code has it. For \<open>0 \<le> overlap < chunk_size\<close> the chunker returns, for a
  text of \<open>W\<close> words, no chunk when \<open>W = 0\<close>, one chunk when \<open>0 < W \<le> overlap\<close>, and
  \<open>\<lceil>(W - overlap) / (chunk_size - overlap)\<rceil>\<close> chunks when \<open>W > overlap\<close>; every chunk
  (so the final one) holds at most \<open>chunk_size\<close> words.
\<close>

theorem chunk_text_count:
  assumes "0 \<le> overlap" "overlap < chunk_size"
  shows "\<exists>chunks. chunk_text text chunk_size overlap = Inr chunks \<and>
           int (length chunks) =
             (if py_split text = [] then 0
              else if int (length (py_split text)) \<le> overlap then 1
              else \<lceil>real_of_int (int (length (py_split text)) - overlap) /
                     real_of_int (chunk_size - overlap)\<rceil>) \<and>
           (\<forall>c\<in>set chunks. int (length (py_split c)) \<le> chunk_size)"
proof -
  let ?words = "py_split text"
  let ?step = "chunk_size - overlap"
  let ?chunks = "chunk_loop ?words chunk_size ?step 0"
  have ok: "\<forall>w\<in>set ?words. word_ok w" using py_split_words by blast
  from assms have s: "0 < ?step" "?step \<le> chunk_size" and cs: "0 < chunk_size" by simp_all
  have run: "chunk_text text chunk_size overlap = Inr ?chunks"
    using s(1) by (simp add: chunk_text_def)
  have words: "\<forall>c\<in>set ?chunks. int (length (py_split c)) \<le> chunk_size"
    using chunk_loop_words[OF cs ok] by blast
  have count: "int (length ?chunks) =
             (if ?words = [] then 0
              else if int (length ?words) \<le> overlap then 1
              else \<lceil>real_of_int (int (length ?words) - overlap) / real_of_int ?step\<rceil>)"
  proof (cases "?words = []")
    case True
    then show ?thesis by (subst chunk_loop.simps) simp
  next
    case False
    then have pos: "0 < length ?words" by simp
    from chunk_loop_length[OF s ok pos]
    have len: "int (length ?chunks) =
        (if int (length ?words) \<le> chunk_size then 1
         else 1 - ((chunk_size - int (length ?words)) div ?step))" by simp
    show ?thesis
    proof (cases "int (length ?words) \<le> overlap")
      case True
      with assms(2) len False show ?thesis by simp
    next
      case F: False
      then have "overlap < int (length ?words)" by simp
      from ceiling_window[OF this assms(2)] len False F show ?thesis by simp
    qed
  qed
  from run count words show ?thesis by blast
qed

text \<open>Seven words, windows of 3 overlapping by 1: three chunks.\<close>

theorem chunk_text_count_witness:
  "\<exists>chunks. chunk_text ''a b c d e f g'' 3 1 = Inr chunks \<and> length chunks = 3"
  using chunk_text_count[of 1 3 "''a b c d e f g''"]
  by (auto simp: py_split_def is_space_def)

text \<open>
  The formula of claim C1 fails on a text no longer than the overlap: with the defaults of
  \<^verbatim>\<open>PersistentBhutanRAG.chunk_text\<close> a text of one word gives one chunk, and the formula
  gives \<open>\<lceil>(1 - 200) / 1000\<rceil> = 0\<close>.
\<close>

theorem chunk_text_count_counterexample:
  "(200::int) < 1200 \<and> chunk_text ''a'' 1200 200 = Inr [''a''] \<and>
   int (length [''a'']) \<noteq>
     \<lceil>real_of_int (int (length (py_split ''a'')) - 200) / real_of_int (1200 - 200)\<rceil>"
  by (simp add: chunk_text_def py_split_def chunk_loop.simps py_slice_def clamp_index_def
      py_strip_def is_space_def)

text \<open>
  Claim C2, as the code has it. The source defines no \<^verbatim>\<open>ConfigurationError\<close> and checks
  no configuration. The only exception of the chunker is the \<^verbatim>\<open>ValueError\<close> that
  \<^verbatim>\<open>range\<close> raises for step 0, that is exactly when \<open>overlap = chunk_size\<close>; with
  \<open>overlap > chunk_size\<close> the step is negative, the range is empty and the chunker returns
  the empty list.
\<close>

theorem chunk_text_degenerate:
  "(chunk_text text chunk_size overlap = Inl e \<longleftrightarrow> overlap = chunk_size \<and> e = ValueError) \<and>
   (chunk_size < overlap \<longrightarrow> chunk_text text chunk_size overlap = Inr [])"
  by (cases e) (auto simp: chunk_text_def chunk_loop.simps)

text \<open>Both cases at concrete configurations.\<close>

theorem chunk_text_degenerate_witness:
  "chunk_text ''x y'' 5 5 = Inl ValueError \<and> chunk_text ''x y'' 1 4 = Inr []"
  using chunk_text_degenerate[of "''x y''" 5 5 ValueError] chunk_text_degenerate[of "''x y''" 1 4 ValueError]
  by simp

text \<open>With \<open>overlap = 3 \<ge> chunk_size = 2\<close> the chunker returns a chunk sequence: no error.\<close>

theorem chunk_text_degenerate_counterexample:
  "(2::int) \<le> 3 \<and> (\<exists>chunks. chunk_text ''a b c'' 2 3 = Inr chunks)"
  by (simp add: chunk_text_def)

section \<open>Properties of the keyword search\<close>

lemma starts_with_iff: "starts_with p s \<longleftrightarrow> (\<exists>post. s = p @ post)"
  by (induction p s rule: starts_with.induct) auto

lemma py_in_iff: "py_in sub s \<longleftrightarrow> (\<exists>pre post. s = pre @ sub @ post)"
proof (induction s)
  case Nil
  then show ?case by auto
next
  case (Cons c cs)
  show ?case
  proof
    assume "py_in sub (c # cs)"
    then consider "starts_with sub (c # cs)" | "py_in sub cs" by auto
    then show "\<exists>pre post. c # cs = pre @ sub @ post"
    proof cases
      case 1
      then obtain post where "c # cs = [] @ sub @ post" by (auto simp: starts_with_iff)
      then show ?thesis by blast
    next
      case 2
      with Cons.IH obtain pre post where "cs = pre @ sub @ post" by blast
      then have "c # cs = (c # pre) @ sub @ post" by simp
      then show ?thesis by blast
    qed
  next
    assume "\<exists>pre post. c # cs = pre @ sub @ post"
    then obtain pre post where e: "c # cs = pre @ sub @ post" by blast
    show "py_in sub (c # cs)"
    proof (cases pre)
      case Nil
      with e have "starts_with sub (c # cs)" by (simp add: starts_with_iff)
      then show ?thesis by simp
    next
      case (Cons a pre')
      with e have "cs = pre' @ sub @ post" by simp
      with Cons.IH have "py_in sub cs" by blast
      then show ?thesis by simp
    qed
  qed
qed


lemma score_chunks_zip:
  "length chunks + i \<le> length metas \<Longrightarrow>
     score_chunks query chunks metas i = Inr (scored_of query chunks (drop i metas))"
proof (induction chunks arbitrary: i)
  case Nil
  then show ?case by (simp add: scored_of_def)
next
  case (Cons c cs)
  then have i: "i < length metas" and r: "length cs + Suc i \<le> length metas" by simp_all
  from i have d: "drop i metas = metas ! i # drop (Suc i) metas"
    by (simp add: Cons_nth_drop_Suc)
  from Cons.IH[OF r] i show ?case unfolding d by (simp add: scored_of_def)
qed

lemma py_slice_take: "0 \<le> k \<Longrightarrow> py_slice xs 0 k = take (nat k) xs"
  by (simp add: py_slice_def clamp_index_def min_def)

lemma enhanced_text_search_eq:
  assumes "length chunks \<le> length metas" "0 \<le> k"
  shows "enhanced_text_search chunks metas query k =
           Inr (map (\<lambda>(_, c, _). c) (take (nat k) (sort_desc (scored_of query chunks metas))),
                map (\<lambda>(_, _, m). m) (take (nat k) (sort_desc (scored_of query chunks metas))))"
  using score_chunks_zip[of chunks 0 metas query] assms
  by (simp add: enhanced_text_search_def py_slice_take Let_def)

lemma scored_of_elem:
  "(s, c, m) \<in> set (scored_of query chunks metas) \<Longrightarrow>
     s = chunk_score query c m \<and> 0 < s \<and> (c, m) \<in> set (zip chunks metas)"
  by (auto simp: scored_of_def)

lemma sort_desc_set: "set (sort_desc xs) = set xs"
  by (simp add: sort_desc_def)

lemma sort_desc_sorted: "sorted_wrt (\<ge>) (map fst (sort_desc xs))"
proof -
  have "sorted (map (\<lambda>x. - fst x) (sort_desc xs))"
    unfolding sort_desc_def by (rule sorted_sort_key)
  then have "sorted_wrt (\<lambda>a b. - fst a \<le> - fst b) (sort_desc xs)"
    by (simp add: sorted_map)
  then have "sorted_wrt (\<lambda>a b. fst a \<ge> fst b) (sort_desc xs)"
    by simp
  then show ?thesis by (simp add: sorted_wrt_map)
qed

lemma sort_desc_stable: "filter (\<lambda>x. fst x = s) (sort_desc xs) = filter (\<lambda>x. fst x = s) xs"
proof -
  have "filter (\<lambda>x. - fst x = - s) (sort_key (\<lambda>x. - fst x) xs) = filter (\<lambda>x. - fst x = - s) xs"
    by (rule sort_key_stable)
  then show ?thesis by (simp add: sort_desc_def)
qed

lemma sorted_wrt_take: "sorted_wrt R xs \<Longrightarrow> sorted_wrt R (take n xs)"
  by (metis append_take_drop_id sorted_wrt_append)

lemma filter_take_prefix: "\<exists>rest. filter P xs = filter P (take n xs) @ rest"
  by (metis append_take_drop_id filter_append)


lemma enhanced_text_search_shape:
  assumes "length chunks \<le> length metas" "0 \<le> k"
  shows "\<exists>ranked. enhanced_text_search chunks metas query k = Inr (map fst ranked, map snd ranked) \<and>
           length ranked = min (nat k) (length (filter (\<lambda>(c, m). 0 < chunk_score query c m) (zip chunks metas))) \<and>
           (\<forall>(c, m)\<in>set ranked. (c, m) \<in> set (zip chunks metas) \<and> 0 < chunk_score query c m) \<and>
           sorted_wrt (\<ge>) (map (\<lambda>(c, m). chunk_score query c m) ranked) \<and>
           (\<forall>s>0. \<exists>rest. filter (\<lambda>(c, m). chunk_score query c m = s) (zip chunks metas) =
                           filter (\<lambda>(c, m). chunk_score query c m = s) ranked @ rest) \<and>
           (\<exists>rest. sorted_wrt (\<ge>) (map (\<lambda>(c, m). chunk_score query c m) (ranked @ rest)) \<and>
              (\<forall>s. filter (\<lambda>(c, m). chunk_score query c m = s) (ranked @ rest) =
                    filter (\<lambda>(c, m). chunk_score query c m = s)
                      (filter (\<lambda>(c, m). 0 < chunk_score query c m) (zip chunks metas))))"
proof -
  define h :: "string \<times> 'a chunk_meta_scheme \<Rightarrow> int \<times> string \<times> 'a chunk_meta_scheme"
    where "h = (\<lambda>(c, m). (chunk_score query c m, c, m))"
  define g :: "int \<times> string \<times> 'a chunk_meta_scheme \<Rightarrow> string \<times> 'a chunk_meta_scheme"
    where "g = (\<lambda>(s, c, m). (c, m))"
  define C where "C = filter (\<lambda>(c, m). 0 < chunk_score query c m) (zip chunks metas)"
  define top where "top = take (nat k) (sort_desc (scored_of query chunks metas))"
  define R where "R = map g top"
  have scored: "scored_of query chunks metas = map h C"
    by (simp add: scored_of_def h_def C_def)
  have gh: "g (h y) = y" for y by (cases y) (simp add: g_def h_def)
  have top_sub: "set top \<subseteq> set (map h C)"
    unfolding top_def scored using set_take_subset sort_desc_set by fastforce
  have hg: "h (g x) = x" if "x \<in> set top" for x
  proof -
    from that top_sub obtain y where "x = h y" by auto
    then show ?thesis by (simp add: gh)
  qed
  have top_R: "top = map h R" unfolding R_def by (simp add: hg map_idI)
  have run: "enhanced_text_search chunks metas query k = Inr (map fst R, map snd R)"
    unfolding enhanced_text_search_eq[OF assms] top_def[symmetric] R_def
    by (simp add: g_def case_prod_unfold)
  have len: "length R = min (nat k) (length C)"
    unfolding R_def top_def scored by (simp add: sort_desc_def)
  have elems: "\<forall>(c, m)\<in>set R. (c, m) \<in> set (zip chunks metas) \<and> 0 < chunk_score query c m"
  proof (clarify)
    fix c m assume "(c, m) \<in> set R"
    then have "h (c, m) \<in> set top" unfolding top_R by simp
    with top_sub obtain y where "h (c, m) = h y" "y \<in> set C" by auto
    then have "(c, m) \<in> set C" by (metis gh)
    then show "(c, m) \<in> set (zip chunks metas) \<and> 0 < chunk_score query c m"
      by (simp add: C_def)
  qed
  have "map (\<lambda>(c, m). chunk_score query c m) R = map fst top"
    unfolding top_R by (simp add: h_def case_prod_unfold)
  then have sorted: "sorted_wrt (\<ge>) (map (\<lambda>(c, m). chunk_score query c m) R)"
    unfolding top_def using sort_desc_sorted sorted_wrt_take
    by (metis take_map)
  have stable: "\<exists>rest. filter (\<lambda>(c, m). chunk_score query c m = s) (zip chunks metas) =
                       filter (\<lambda>(c, m). chunk_score query c m = s) R @ rest" if "0 < s" for s
  proof -
    let ?P = "\<lambda>(c, m). chunk_score query c m = s"
    have Ph: "(\<lambda>x. fst x = s) \<circ> h = ?P" by (auto simp: h_def)
    from filter_take_prefix[of "\<lambda>x. fst x = s" "sort_desc (map h C)" "nat k"]
    obtain rest where "filter (\<lambda>x. fst x = s) (sort_desc (map h C)) =
        filter (\<lambda>x. fst x = s) top @ rest"
      unfolding top_def scored by blast
    then have "filter (\<lambda>x. fst x = s) (map h C) = filter (\<lambda>x. fst x = s) (map h R) @ rest"
      unfolding sort_desc_stable top_R .
    then have "map h (filter ?P C) = map h (filter ?P R) @ rest"
      unfolding filter_map Ph .
    then have "map g (map h (filter ?P C)) = map g (map h (filter ?P R)) @ map g rest"
      by (metis map_append)
    moreover have "g \<circ> h = id" by (auto simp: gh)
    ultimately have "filter ?P C = filter ?P R @ map g rest"
      by simp
    moreover from that have "filter ?P C = filter ?P (zip chunks metas)"
      unfolding C_def by (auto intro: filter_cong)
    ultimately show ?thesis by metis
  qed
  define full where "full = sort_desc (map h C)"
  have full_sub: "set full = set (map h C)" unfolding full_def by (rule sort_desc_set)
  have hg_full: "h (g x) = x" if "x \<in> set full" for x
  proof -
    from that full_sub obtain y where "x = h y" by auto
    then show ?thesis by (simp add: gh)
  qed
  have full_hg: "full = map h (map g full)" by (simp add: hg_full map_idI)
  have split: "R @ map g (drop (nat k) full) = map g full"
    unfolding R_def top_def scored full_def by (metis append_take_drop_id map_append)
  have "map (\<lambda>(c, m). chunk_score query c m) (map g full) = map fst (map h (map g full))"
    by (simp add: h_def case_prod_unfold)
  also have "\<dots> = map fst full" using full_hg by simp
  finally have all_sorted: "sorted_wrt (\<ge>) (map (\<lambda>(c, m). chunk_score query c m) (map g full))"
    unfolding full_def using sort_desc_sorted by metis
  have all_stable: "filter (\<lambda>(c, m). chunk_score query c m = s) (map g full) =
      filter (\<lambda>(c, m). chunk_score query c m = s) C" for s
  proof -
    let ?P = "\<lambda>(c, m). chunk_score query c m = s"
    have Ph: "(\<lambda>x. fst x = s) \<circ> h = ?P" by (auto simp: h_def)
    have "filter (\<lambda>x. fst x = s) full = filter (\<lambda>x. fst x = s) (map h C)"
      unfolding full_def by (rule sort_desc_stable)
    then have "filter (\<lambda>x. fst x = s) (map h (map g full)) = filter (\<lambda>x. fst x = s) (map h C)"
      using full_hg by simp
    then have "map h (filter ?P (map g full)) = map h (filter ?P C)"
      unfolding filter_map Ph .
    then have "map g (map h (filter ?P (map g full))) = map g (map h (filter ?P C))"
      by simp
    moreover have "g \<circ> h = id" by (auto simp: gh)
    ultimately show ?thesis by simp
  qed
  have whole: "\<exists>rest. sorted_wrt (\<ge>) (map (\<lambda>(c, m). chunk_score query c m) (R @ rest)) \<and>
              (\<forall>s. filter (\<lambda>(c, m). chunk_score query c m = s) (R @ rest) =
                    filter (\<lambda>(c, m). chunk_score query c m = s) C)"
    using all_sorted all_stable unfolding split[symmetric] by blast
  from run len elems sorted stable whole show ?thesis unfolding C_def by blast
qed


lemma split_from_sub:
  "w \<in> set (split_from s cur) \<Longrightarrow> \<exists>pre post. rev cur @ s = pre @ w @ post"
proof (induction s arbitrary: cur)
  case Nil
  then have "rev cur @ [] = [] @ w @ []" by (simp split: if_splits)
  then show ?case by blast
next
  case (Cons c cs)
  show ?case
  proof (cases "is_space c")
    case False
    with Cons.prems have "w \<in> set (split_from cs (c # cur))" by simp
    from Cons.IH[OF this] show ?thesis by simp
  next
    case True
    with Cons.prems consider "w = rev cur" | "w \<in> set (split_from cs [])"
      by (auto split: if_splits)
    then show ?thesis
    proof cases
      case 1
      then have "rev cur @ c # cs = [] @ w @ (c # cs)" by simp
      then show ?thesis by blast
    next
      case 2
      from Cons.IH[OF this] obtain pre post where "cs = pre @ w @ post" by auto
      then have "rev cur @ c # cs = (rev cur @ c # pre) @ w @ post" by simp
      then show ?thesis by blast
    qed
  qed
qed

lemma py_split_sub: "w \<in> set (py_split s) \<Longrightarrow> py_in w s"
  unfolding py_split_def py_in_iff using split_from_sub[of w s "[]"] by simp

lemma py_in_trans: "py_in a b \<Longrightarrow> py_in b c \<Longrightarrow> py_in a c"
proof -
  assume "py_in a b" "py_in b c"
  then obtain p1 q1 p2 q2 where "b = p1 @ a @ q1" "c = p2 @ b @ q2"
    unfolding py_in_iff by blast
  then have "c = (p2 @ p1) @ a @ (q1 @ q2)" by simp
  then show ?thesis unfolding py_in_iff by blast
qed

lemma word_matches_le: "word_matches query chunk \<le> length (py_split (py_lower query))"
  by (simp add: word_matches_def)

lemma word_matches_all:
  assumes "py_in (py_lower query) (py_lower chunk)"
  shows "word_matches query chunk = length (py_split (py_lower query))"
proof -
  have "\<forall>w\<in>set (py_split (py_lower query)). py_in w (py_lower chunk)"
    using py_split_sub py_in_trans[OF _ assms] by blast
  then show ?thesis by (simp add: word_matches_def)
qed

lemma domain_boost_values: "domain_boost q d \<in> {0, 3, 5}"
  by (simp add: domain_boost_def)

lemma domain_boost_rule:
  "domain_boost q d =
     (if (\<exists>pre post. q = pre @ ''constitution'' @ post) \<and>
         (\<exists>pre post. d = pre @ ''constitution'' @ post) then 5
      else if (\<exists>pre post. q = pre @ ''corruption'' @ post) \<and>
              (\<exists>pre post. d = pre @ ''corruption'' @ post) then 5
      else if (\<exists>pre post. q = pre @ ''rights'' @ post) \<and>
              (\<exists>pre post. d = pre @ ''constitution'' @ post) then 3
      else 0)"
  unfolding domain_boost_def py_in_iff ..

lemma exact_phrase_dominates:
  assumes "py_in (py_lower query) (py_lower x)" "\<not> py_in (py_lower query) (py_lower y)"
  shows "chunk_score query y my < chunk_score query x mx"
proof -
  let ?n = "int (length (py_split (py_lower query)))"
  have bx: "0 \<le> domain_boost (py_lower query) (py_lower (document mx))"
    using domain_boost_values[of "py_lower query" "py_lower (document mx)"] by auto
  have by': "domain_boost (py_lower query) (py_lower (document my)) \<le> 5"
    using domain_boost_values[of "py_lower query" "py_lower (document my)"] by auto
  from assms(1) bx have "10 + ?n * 2 \<le> chunk_score query x mx"
    by (simp add: chunk_score_def word_matches_all)
  moreover from assms(2) by' word_matches_le[of query y]
  have "chunk_score query y my \<le> ?n * 2 + 5"
    by (simp add: chunk_score_def)
  ultimately show ?thesis by linarith
qed

lemma chunk_score_formula:
  "chunk_score query chunk meta =
     (if \<exists>pre post. py_lower chunk = pre @ py_lower query @ post then 10 else 0)
     + 2 * int (length (filter (\<lambda>w. \<exists>pre post. py_lower chunk = pre @ w @ post)
                            (py_split (py_lower query))))
     + domain_boost (py_lower query) (py_lower (document meta))"
  by (simp add: chunk_score_def word_matches_def py_in_iff)

lemma py_in_Nil: "py_in [] s"
  by (cases s) simp_all

lemma chunk_score_empty: "chunk_score [] chunk meta = 10"
  by (simp add: chunk_score_def word_matches_def py_lower_def py_split_def py_in_Nil
      domain_boost_def)

lemma enhanced_text_search_empty_query:
  assumes "length metas = length chunks" "0 \<le> k"
  shows "enhanced_text_search chunks metas [] k = Inr (take (nat k) chunks, take (nat k) metas)"
proof -
  have sc: "scored_of [] chunks metas = map (\<lambda>(c, m). (10, c, m)) (zip chunks metas)"
    by (simp add: scored_of_def chunk_score_empty)
  have "sorted (map (\<lambda>x. - fst x) (scored_of [] chunks metas))"
    unfolding sc by (simp add: sorted_iff_nth_mono case_prod_unfold)
  then have sd: "sort_desc (scored_of [] chunks metas) = scored_of [] chunks metas"
    unfolding sort_desc_def by (rule sort_key_id_if_sorted)
  have "map (\<lambda>(_, c, _). c) (scored_of [] chunks metas) = map fst (zip chunks metas)"
    "map (\<lambda>(_, _, m). m) (scored_of [] chunks metas) = map snd (zip chunks metas)"
    unfolding sc by (simp_all add: case_prod_unfold)
  with assms(1) have "map (\<lambda>(_, c, _). c) (scored_of [] chunks metas) = chunks"
    "map (\<lambda>(_, _, m). m) (scored_of [] chunks metas) = metas"
    by simp_all
  then have "map (\<lambda>(_, c, _). c) (take (nat k) (scored_of [] chunks metas)) = take (nat k) chunks"
    "map (\<lambda>(_, _, m). m) (take (nat k) (scored_of [] chunks metas)) = take (nat k) metas"
    by (metis take_map)+
  then show ?thesis
    unfolding enhanced_text_search_eq[OF eq_imp_le[OF assms(1)[symmetric]] assms(2)] sd
    by simp
qed

text \<open>
  Claim C5, as the code has it. With one metadata record per chunk and \<open>k \<ge> 0\<close>, the
  keyword search returns the top \<open>k\<close> of the stored (chunk, metadata) pairs of positive
  score: the returned list \<open>ranked\<close>, followed by some list \<open>rest\<close>, is all the pairs of
  positive score ordered by descending score, pairs of equal score in their stored order,
  and \<open>ranked\<close> holds \<open>k\<close> of them, or all when there are fewer. The score of a chunk is 10
  when the lower-cased question as a whole occurs in the lower-cased chunk, plus 2 for
  every word of the lower-cased question (each occurrence of a repeated word counted) that
  occurs in the lower-cased chunk as a substring, plus the boost: 5 when question and
  document name both contain \<^verbatim>\<open>constitution\<close>, else 5 when both contain \<^verbatim>\<open>corruption\<close>,
  else 3 when the question contains \<^verbatim>\<open>rights\<close> and the document name \<^verbatim>\<open>constitution\<close>,
  else 0. A chunk that contains the whole question scores strictly more than any chunk
  that does not.
\<close>

theorem enhanced_text_search_ranking:
  assumes "length metas = length chunks" "0 \<le> k"
  shows "(\<exists>ranked. enhanced_text_search chunks metas query k = Inr (map fst ranked, map snd ranked) \<and>
           length ranked = min (nat k) (length (filter (\<lambda>(c, m). 0 < chunk_score query c m) (zip chunks metas))) \<and>
           (\<forall>(c, m)\<in>set ranked. (c, m) \<in> set (zip chunks metas) \<and> 0 < chunk_score query c m) \<and>
           sorted_wrt (\<ge>) (map (\<lambda>(c, m). chunk_score query c m) ranked) \<and>
           (\<forall>s>0. \<exists>rest. filter (\<lambda>(c, m). chunk_score query c m = s) (zip chunks metas) =
                           filter (\<lambda>(c, m). chunk_score query c m = s) ranked @ rest) \<and>
           (\<exists>rest. sorted_wrt (\<ge>) (map (\<lambda>(c, m). chunk_score query c m) (ranked @ rest)) \<and>
              (\<forall>s. filter (\<lambda>(c, m). chunk_score query c m = s) (ranked @ rest) =
                    filter (\<lambda>(c, m). chunk_score query c m = s)
                      (filter (\<lambda>(c, m). 0 < chunk_score query c m) (zip chunks metas))))) \<and>
         chunk_score query chunk meta =
           (if \<exists>pre post. py_lower chunk = pre @ py_lower query @ post then 10 else 0)
           + 2 * int (length (filter (\<lambda>w. \<exists>pre post. py_lower chunk = pre @ w @ post)
                                  (py_split (py_lower query))))
           + domain_boost (py_lower query) (py_lower (document meta)) \<and>
         domain_boost (py_lower query) doc_name \<in> {0, 3, 5} \<and>
         domain_boost (py_lower query) doc_name =
           (if (\<exists>pre post. py_lower query = pre @ ''constitution'' @ post) \<and>
               (\<exists>pre post. doc_name = pre @ ''constitution'' @ post) then 5
            else if (\<exists>pre post. py_lower query = pre @ ''corruption'' @ post) \<and>
                    (\<exists>pre post. doc_name = pre @ ''corruption'' @ post) then 5
            else if (\<exists>pre post. py_lower query = pre @ ''rights'' @ post) \<and>
                    (\<exists>pre post. doc_name = pre @ ''constitution'' @ post) then 3
            else 0) \<and>
         (py_in (py_lower query) (py_lower x) \<and> \<not> py_in (py_lower query) (py_lower y) \<longrightarrow>
            chunk_score query y my < chunk_score query x mx)"
  using enhanced_text_search_shape[OF eq_imp_le[OF assms(1)[symmetric]] assms(2), of query]
    chunk_score_formula[of query chunk meta] domain_boost_values[of "py_lower query" doc_name]
    domain_boost_rule[of "py_lower query" doc_name]
    exact_phrase_dominates[of query x y my mx]
  by blast

text \<open>One stored chunk that contains the question: it is returned.\<close>

theorem enhanced_text_search_ranking_witness:
  "\<exists>ranked. enhanced_text_search [''a fine''] [\<lparr>document = ''Tax_Act'', chunk_id = 0, total_chunks = 1\<rparr>] ''fine'' 1
      = Inr (map fst ranked, map snd ranked) \<and> length ranked = 1"
proof -
  let ?m = "\<lparr>document = ''Tax_Act'', chunk_id = 0, total_chunks = 1\<rparr>"
  have h: "length [?m] = length [''a fine'']" "(0::int) \<le> 1" by simp_all
  from enhanced_text_search_ranking[OF h, of "''fine''"]
  obtain ranked where r: "enhanced_text_search [''a fine''] [?m] ''fine'' 1 = Inr (map fst ranked, map snd ranked)"
    "length ranked = min (nat 1) (length (filter (\<lambda>(c, m). 0 < chunk_score ''fine'' c m) (zip [''a fine''] [?m])))"
    by blast
  have "chunk_score ''fine'' ''a fine'' ?m = 12" by code_simp
  with r(2) have "length ranked = 1" by simp
  with r(1) show ?thesis by blast
qed

text \<open>
  Claim C5 fails twice. The chunk \<^verbatim>\<open>The penalty for corruption is imprisonment.\<close> contains
  \<^verbatim>\<open>penalty for corruption\<close>, yet for the question \<^verbatim>\<open>What is the penalty for corruption?\<close>
  it gets no bonus of 10 (the whole question is not in it): it scores 8 and ranks below a
  chunk that matches five single words and scores 10. And a repeated question word counts
  every time: for \<^verbatim>\<open>the the\<close>, one distinct word, the chunk \<^verbatim>\<open>the law\<close> scores 4.
\<close>

theorem enhanced_text_search_counterexample:
  "py_in ''penalty for corruption'' ''The penalty for corruption is imprisonment.'' \<and>
   chunk_score ''What is the penalty for corruption?'' ''The penalty for corruption is imprisonment.''
     \<lparr>document = ''Penal_Code_2004'', chunk_id = 0, total_chunks = 2\<rparr> = 8 \<and>
   chunk_score ''What is the penalty for corruption?'' ''What is the penalty for theft''
     \<lparr>document = ''Penal_Code_2004'', chunk_id = 1, total_chunks = 2\<rparr> = 10 \<and>
   enhanced_text_search
     [''The penalty for corruption is imprisonment.'', ''What is the penalty for theft'']
     [\<lparr>document = ''Penal_Code_2004'', chunk_id = 0, total_chunks = 2\<rparr>,
      \<lparr>document = ''Penal_Code_2004'', chunk_id = 1, total_chunks = 2\<rparr>]
     ''What is the penalty for corruption?'' 5
   = Inr ([''What is the penalty for theft'', ''The penalty for corruption is imprisonment.''],
          [\<lparr>document = ''Penal_Code_2004'', chunk_id = 1, total_chunks = 2\<rparr>,
           \<lparr>document = ''Penal_Code_2004'', chunk_id = 0, total_chunks = 2\<rparr>]) \<and>
   remdups (py_split (py_lower ''the the'')) = [''the''] \<and>
   chunk_score ''the the'' ''the law''
     \<lparr>document = ''Penal_Code_2004'', chunk_id = 0, total_chunks = 2\<rparr> = 4"
  by code_simp

text \<open>
  Claim C10. For the empty question the exact-phrase test succeeds on every chunk: every
  chunk scores 10, the bonus alone (the question has no word and takes no boost). So with
  one metadata record per chunk and \<open>k \<ge> 0\<close> the search returns the first \<open>k\<close> stored
  chunks, in their stored order, all with a positive score.
\<close>

theorem empty_question_matches_all:
  assumes "length metas = length chunks" "0 \<le> k"
  shows "enhanced_text_search chunks metas [] k = Inr (take (nat k) chunks, take (nat k) metas) \<and>
         chunk_score [] chunk meta = 10 \<and> py_split (py_lower []) = []"
  using enhanced_text_search_empty_query[OF assms] chunk_score_empty[of chunk meta]
  by (simp add: py_split_def py_lower_def)

text \<open>Three stored chunks and \<open>k = 2\<close>: the first two.\<close>

theorem empty_question_matches_all_witness:
  "enhanced_text_search [''a'', ''b'', ''c'']
     [\<lparr>document = ''D'', chunk_id = 0, total_chunks = 3\<rparr>,
      \<lparr>document = ''D'', chunk_id = 1, total_chunks = 3\<rparr>,
      \<lparr>document = ''D'', chunk_id = 2, total_chunks = 3\<rparr>] [] 2
   = Inr ([''a'', ''b''],
          [\<lparr>document = ''D'', chunk_id = 0, total_chunks = 3\<rparr>,
           \<lparr>document = ''D'', chunk_id = 1, total_chunks = 3\<rparr>])"
proof -
  let ?metas = "[\<lparr>document = ''D'', chunk_id = 0, total_chunks = 3\<rparr>,
        \<lparr>document = ''D'', chunk_id = 1, total_chunks = 3\<rparr>,
        \<lparr>document = ''D'', chunk_id = 2, total_chunks = 3\<rparr>]"
  have h: "length ?metas = length [''a'', ''b'', ''c'']" "(0::int) \<le> 2" by simp_all
  from empty_question_matches_all[OF h, THEN conjunct1] show ?thesis
    by (simp add: numeral_2_eq_2)
qed

section \<open>Properties of chunk creation\<close>

lemma aligned_all2: "aligned split texts cs ms \<longleftrightarrow> list_all2 (made_from split texts) cs ms"
  by (auto simp: aligned_def list_all2_conv_all_nth)

lemma add_chunks_all2:
  assumes "list_all2 P cs ms"
    and "\<And>j. j < length rest \<Longrightarrow>
           P (rest ! j) \<lparr>document = d, chunk_id = i + j, total_chunks = n,
                          doc_type = get_document_type d\<rparr>"
  shows "list_all2 P (fst (add_chunks d n i rest (cs, ms))) (snd (add_chunks d n i rest (cs, ms)))"
  using assms
proof (induction rest arbitrary: i cs ms)
  case Nil
  then show ?case by simp
next
  case (Cons chunk rest)
  let ?m = "\<lparr>document = d, chunk_id = i, total_chunks = n, doc_type = get_document_type d\<rparr>"
  from Cons.prems(2)[of 0] have here: "P chunk ?m" by simp
  have later: "\<And>j. j < length rest \<Longrightarrow>
           P (rest ! j) \<lparr>document = d, chunk_id = Suc i + j, total_chunks = n,
                          doc_type = get_document_type d\<rparr>"
    using Cons.prems(2)[of "Suc j" for j] by simp
  show ?case
  proof (cases "length (py_strip chunk) > 100")
    case True
    from Cons.prems(1) here have "list_all2 P (cs @ [chunk]) (ms @ [?m])"
      by (simp add: list_all2_appendI)
    from Cons.IH[OF this later] True show ?thesis by simp
  next
    case False
    from Cons.IH[OF Cons.prems(1) later] False show ?thesis by simp
  qed
qed

lemma chunk_text_defaults: "chunk_text text 1200 200 = Inr (chunk_loop (py_split text) 1200 1000 0)"
  "chunk_text text 1500 300 = Inr (chunk_loop (py_split text) 1500 1200 0)"
  by (simp_all add: chunk_text_def)

lemma create_chunks_loop_all2:
  assumes "list_all2 (made_from (\<lambda>text d. chunk_text text 1200 200) texts) (fst acc) (snd acc)"
    and "set rest \<subseteq> set texts"
  shows "\<exists>cs ms. create_chunks_loop rest acc = Inr (cs, ms) \<and>
           list_all2 (made_from (\<lambda>text d. chunk_text text 1200 200) texts) cs ms"
  using assms
proof (induction rest arbitrary: acc)
  case Nil
  then show ?case by (cases acc) simp
next
  case (Cons dt rest)
  obtain d t where dt: "dt = (d, t)" by (cases dt)
  obtain cs ms where acc: "acc = (cs, ms)" by (cases acc)
  let ?pieces = "chunk_loop (py_split t) 1200 1000 0"
  let ?acc' = "add_chunks d (length ?pieces) 0 ?pieces (cs, ms)"
  from Cons.prems(2) dt have mem: "(d, t) \<in> set texts" by simp
  have "list_all2 (made_from (\<lambda>text d. chunk_text text 1200 200) texts) (fst ?acc') (snd ?acc')"
  proof (rule add_chunks_all2)
    from Cons.prems(1) acc
    show "list_all2 (made_from (\<lambda>text d. chunk_text text 1200 200) texts) cs ms" by simp
  next
    fix j assume "j < length ?pieces"
    with mem show "made_from (\<lambda>text d. chunk_text text 1200 200) texts (?pieces ! j)
        \<lparr>document = d, chunk_id = 0 + j, total_chunks = length ?pieces,
          doc_type = get_document_type d\<rparr>"
      unfolding made_from_def chunk_text_defaults by auto
  qed
  moreover from Cons.prems(2) have "set rest \<subseteq> set texts" by simp
  ultimately have "\<exists>cs ms. create_chunks_loop rest ?acc' = Inr (cs, ms) \<and>
           list_all2 (made_from (\<lambda>text d. chunk_text text 1200 200) texts) cs ms"
    by (rule Cons.IH)
  then show ?case unfolding dt acc by (simp add: chunk_text_defaults)
qed


lemma add_sections_all2:
  assumes "list_all2 P cs ms"
    and "\<And>j c. j < length rest \<Longrightarrow>
           P (rest ! j) \<lparr>document = d, chunk_id = i + j, total_chunks = n,
                          doc_type = get_document_type_v2 d, content_preview = c\<rparr>"
  shows "list_all2 P (fst (add_sections d n i rest (cs, ms))) (snd (add_sections d n i rest (cs, ms)))"
  using assms
proof (induction rest arbitrary: i cs ms)
  case Nil
  then show ?case by simp
next
  case (Cons piece rest)
  let ?m = "\<lparr>document = d, chunk_id = i, total_chunks = n, doc_type = get_document_type_v2 d,
              content_preview = (if length piece > 100 then take 100 piece @ ''...'' else piece)\<rparr>"
  from Cons.prems(2)[of 0] have here: "P piece ?m" by simp
  have later: "\<And>j c. j < length rest \<Longrightarrow>
           P (rest ! j) \<lparr>document = d, chunk_id = Suc i + j, total_chunks = n,
                          doc_type = get_document_type_v2 d, content_preview = c\<rparr>"
    using Cons.prems(2)[of "Suc j" for j] by simp
  show ?case
  proof (cases "length (py_strip piece) > 50")
    case True
    from Cons.prems(1) here have "list_all2 P (cs @ [piece]) (ms @ [?m])"
      by (simp add: list_all2_appendI)
    from Cons.IH[OF this later] True show ?thesis by simp
  next
    case False
    from Cons.IH[OF Cons.prems(1) later] False show ?thesis by simp
  qed
qed

lemma split_legal_document_returns:
  "\<exists>sections. split_legal_document re_split re_finditer t d = Inr sections"
  by (simp add: split_legal_document_def simple_chunk_text_def chunk_text_defaults
      split: option.split)

lemma create_enhanced_loop_all2:
  assumes "list_all2 (made_from (split_legal_document re_split re_finditer) texts) (fst acc) (snd acc)"
    and "set rest \<subseteq> set texts"
  shows "\<exists>cs ms. create_enhanced_loop re_split re_finditer rest acc = Inr (cs, ms) \<and>
           list_all2 (made_from (split_legal_document re_split re_finditer) texts) cs ms"
  using assms
proof (induction rest arbitrary: acc)
  case Nil
  then show ?case by (cases acc) simp
next
  case (Cons dt rest)
  obtain d t where dt: "dt = (d, t)" by (cases dt)
  obtain cs ms where acc: "acc = (cs, ms)" by (cases acc)
  from split_legal_document_returns obtain sections
    where sec: "split_legal_document re_split re_finditer t d = Inr sections" by blast
  let ?acc' = "add_sections d (length sections) 0 sections (cs, ms)"
  from Cons.prems(2) dt have mem: "(d, t) \<in> set texts" by simp
  have "list_all2 (made_from (split_legal_document re_split re_finditer) texts) (fst ?acc') (snd ?acc')"
  proof (rule add_sections_all2)
    from Cons.prems(1) acc
    show "list_all2 (made_from (split_legal_document re_split re_finditer) texts) cs ms" by simp
  next
    fix j c assume "j < length sections"
    with mem sec show "made_from (split_legal_document re_split re_finditer) texts (sections ! j)
        \<lparr>document = d, chunk_id = 0 + j, total_chunks = length sections,
          doc_type = get_document_type_v2 d, content_preview = c\<rparr>"
      unfolding made_from_def by auto
  qed
  moreover from Cons.prems(2) have "set rest \<subseteq> set texts" by simp
  ultimately have "\<exists>cs ms. create_enhanced_loop re_split re_finditer rest ?acc' = Inr (cs, ms) \<and>
           list_all2 (made_from (split_legal_document re_split re_finditer) texts) cs ms"
    by (rule Cons.IH)
  then show ?case unfolding dt acc by (simp add: sec)
qed

lemma create_chunks_aligned:
  "\<exists>all_chunks metadata self'. create_chunks texts self = Inr ((all_chunks, metadata), self') \<and>
      chunks_with_context self' = all_chunks \<and> metadata_with_context self' = metadata \<and>
      chunks_cache self' = Holds (all_chunks, metadata) \<and>
      aligned (\<lambda>text d. chunk_text text 1200 200) texts all_chunks metadata"
proof -
  from create_chunks_loop_all2[of texts "([], [])" texts]
  obtain cs ms where "create_chunks_loop texts ([], []) = Inr (cs, ms)"
    "list_all2 (made_from (\<lambda>text d. chunk_text text 1200 200) texts) cs ms" by auto
  then show ?thesis
    by (simp add: create_chunks_def save_chunks_data_def aligned_all2)
qed

lemma load_chunks_data_cached:
  "chunks_cache self = Holds (cs, ms) \<Longrightarrow>
     \<exists>self'. load_chunks_data self = ((cs, ms), self') \<and>
       chunks_with_context self' = cs \<and> metadata_with_context self' = ms"
  by (simp add: load_chunks_data_def)

lemma create_enhanced_chunks_aligned:
  "\<exists>all_chunks metadata self'.
      create_enhanced_chunks re_split re_finditer texts self = Inr ((all_chunks, metadata), self') \<and>
      chunks_with_context self' = all_chunks \<and> metadata_with_context self' = metadata \<and>
      aligned (split_legal_document re_split re_finditer) texts all_chunks metadata"
proof -
  from create_enhanced_loop_all2[of re_split re_finditer texts "([], [])" texts]
  obtain cs ms where "create_enhanced_loop re_split re_finditer texts ([], []) = Inr (cs, ms)"
    "list_all2 (made_from (split_legal_document re_split re_finditer) texts) cs ms" by auto
  then show ?thesis
    by (simp add: create_enhanced_chunks_def aligned_all2)
qed

text \<open>
  Claim C9. \<^verbatim>\<open>create_chunks\<close> never raises; the lists it returns and stores are aligned:
  equal length, and the metadata at each index names the document, and the position among
  the windows of that document's text, of the chunk at that index. Loading the cache file
  it wrote gives back the same two lists, into any object. The same holds of
  \<^verbatim>\<open>create_enhanced_chunks\<close>, whatever the regular-expression engine returns.
\<close>

theorem chunks_metadata_aligned:
  "(\<exists>all_chunks metadata self'.
      create_chunks texts self = Inr ((all_chunks, metadata), self') \<and>
      chunks_with_context self' = all_chunks \<and> metadata_with_context self' = metadata \<and>
      aligned (\<lambda>text d. chunk_text text 1200 200) texts all_chunks metadata \<and>
      (\<forall>other. chunks_cache other = chunks_cache self' \<longrightarrow>
         (\<exists>other'. load_chunks_data other = ((all_chunks, metadata), other') \<and>
            chunks_with_context other' = all_chunks \<and>
            metadata_with_context other' = metadata))) \<and>
   (\<exists>all_chunks metadata improved'.
      create_enhanced_chunks re_split re_finditer texts improved
        = Inr ((all_chunks, metadata), improved') \<and>
      chunks_with_context improved' = all_chunks \<and> metadata_with_context improved' = metadata \<and>
      aligned (split_legal_document re_split re_finditer) texts all_chunks metadata)"
proof -
  from create_chunks_aligned[of texts self]
  obtain cs ms self' where c: "create_chunks texts self = Inr ((cs, ms), self')"
    "chunks_with_context self' = cs" "metadata_with_context self' = ms"
    "chunks_cache self' = Holds (cs, ms)"
    "aligned (\<lambda>text d. chunk_text text 1200 200) texts cs ms" by blast
  have "\<forall>other. chunks_cache other = chunks_cache self' \<longrightarrow>
         (\<exists>other'. load_chunks_data other = ((cs, ms), other') \<and>
            chunks_with_context other' = cs \<and> metadata_with_context other' = ms)"
    using load_chunks_data_cached c(4) by simp
  with c create_enhanced_chunks_aligned[of re_split re_finditer texts improved]
  show ?thesis by blast
qed

text \<open>One document whose text is a single window of more than 100 characters.\<close>

theorem chunks_metadata_aligned_witness:
  "\<exists>self'. create_chunks
       [(''Constitution_2008'', ''Article 1. All citizens shall have the right to freedom of speech, opinion and expression under this Constitution.'')]
       (new_persistent_rag []) =
     Inr (([''Article 1. All citizens shall have the right to freedom of speech, opinion and expression under this Constitution.''],
           [\<lparr>document = ''Constitution_2008'', chunk_id = 0, total_chunks = 1,
              doc_type = ''constitution''\<rparr>]), self') \<and>
     aligned (\<lambda>text d. chunk_text text 1200 200)
       [(''Constitution_2008'', ''Article 1. All citizens shall have the right to freedom of speech, opinion and expression under this Constitution.'')]
       [''Article 1. All citizens shall have the right to freedom of speech, opinion and expression under this Constitution.'']
       [\<lparr>document = ''Constitution_2008'', chunk_id = 0, total_chunks = 1,
          doc_type = ''constitution''\<rparr>] \<and>
     (\<exists>other'. load_chunks_data self' =
        (([''Article 1. All citizens shall have the right to freedom of speech, opinion and expression under this Constitution.''],
          [\<lparr>document = ''Constitution_2008'', chunk_id = 0, total_chunks = 1,
             doc_type = ''constitution''\<rparr>]), other'))"
proof -
  let ?T = "''Article 1. All citizens shall have the right to freedom of speech, opinion and expression under this Constitution.''"
  let ?texts = "[(''Constitution_2008'', ?T)]"
  let ?M = "\<lparr>document = ''Constitution_2008'', chunk_id = 0, total_chunks = 1,
              doc_type = ''constitution''\<rparr>"
  from chunks_metadata_aligned[of ?texts "new_persistent_rag []", THEN conjunct1]
  obtain cs ms self' where c: "create_chunks ?texts (new_persistent_rag []) = Inr ((cs, ms), self')"
    "aligned (\<lambda>text d. chunk_text text 1200 200) ?texts cs ms"
    "\<forall>other. chunks_cache other = chunks_cache self' \<longrightarrow>
         (\<exists>other'. load_chunks_data other = ((cs, ms), other'))"
    by blast
  have "map_sum id fst (create_chunks ?texts (new_persistent_rag [])) = Inr ([?T], [?M])"
    by code_simp
  with c(1) have e: "cs = [?T]" "ms = [?M]" by simp_all
  from c(3) have "\<exists>other'. load_chunks_data self' = ((cs, ms), other')" by blast
  with c(1,2) show ?thesis unfolding e by blast
qed

section \<open>Properties of retrieval\<close>

lemma simple_scores_returns:
  "length chunks + i \<le> length metas \<Longrightarrow> \<exists>scored. simple_scores query chunks metas i = Inr scored"
proof (induction chunks arbitrary: i)
  case Nil
  then show ?case by simp
next
  case (Cons c cs)
  then have "length cs + Suc i \<le> length metas" "\<not> length metas \<le> i" by simp_all
  with Cons.IH[of "Suc i"] show ?case by auto
qed

lemma py_slice_length: "0 \<le> k \<Longrightarrow> length (py_slice xs 0 k) \<le> nat k"
  by (simp add: py_slice_take)

lemma simple_text_search_returns:
  assumes "length metas = length chunks"
  shows "\<exists>docs ms. simple_text_search chunks metas query k = Inr (docs, ms) \<and>
           length ms = length docs \<and> (0 \<le> k \<longrightarrow> length docs \<le> nat k)"
proof -
  from simple_scores_returns[of chunks 0 metas query] assms
  obtain scored where "simple_scores query chunks metas 0 = Inr scored" by auto
  then show ?thesis
    by (simp add: simple_text_search_def Let_def py_slice_length)
qed

lemma enhanced_text_search_returns:
  assumes "length metas = length chunks"
  shows "\<exists>docs ms. enhanced_text_search chunks metas query k = Inr (docs, ms)"
  using score_chunks_zip[of chunks 0 metas query] assms
  by (simp add: enhanced_text_search_def Let_def)

lemma search_documents_absent:
  "vector_db self = None \<Longrightarrow> search_documents vquery self query k = ([], [])"
  by (simp add: search_documents_def)

lemma search_legal_documents_after_failure:
  assumes "length metadata = length chunks"
  shows "vector_db (setup_vector_database (Inl err) chunks metadata legal) = None \<and>
         search_legal_documents vquery (setup_vector_database (Inl err) chunks metadata legal) query k
           = simple_text_search chunks metadata query k \<and>
         (\<exists>docs ms. simple_text_search chunks metadata query k = Inr (docs, ms))"
  using simple_text_search_returns[OF assms, of query k]
  by (auto simp: setup_vector_database_def search_legal_documents_def)

lemma improved_search_documents_absent:
  assumes "vector_db improved = None"
    "length (metadata_with_context improved) = length (chunks_with_context improved)"
  shows "improved_search_documents vquery improved query k
           = enhanced_text_search (chunks_with_context improved) (metadata_with_context improved) query k \<and>
         (\<exists>docs ms. improved_search_documents vquery improved query k = Inr (docs, ms))"
  using enhanced_text_search_returns[OF assms(2), of query k] assms(1)
  by (auto simp: improved_search_documents_def)

section \<open>Properties of initialization\<close>

lemma extract_frame:
  "extract_text_from_pdfs e self = (texts, self') \<Longrightarrow>
     embeddings_cache self' = embeddings_cache self \<and> vector_db self' = vector_db self \<and>
     docs_dir self' = docs_dir self"
  by (auto simp: extract_text_from_pdfs_def split: prod.splits)

lemma create_chunks_frame:
  "\<exists>cs ms self'. create_chunks texts self = Inr ((cs, ms), self') \<and>
     embeddings_cache self' = embeddings_cache self \<and> vector_db self' = vector_db self \<and>
     docs_dir self' = docs_dir self"
proof -
  from create_chunks_loop_all2[of texts "([], [])" texts]
  obtain cs ms where "create_chunks_loop texts ([], []) = Inr (cs, ms)" by auto
  then show ?thesis by (simp add: create_chunks_def save_chunks_data_def)
qed

lemma setup_embedding_frame:
  "setup_embedding_model e self = (ok, self') \<Longrightarrow>
     embeddings_cache self' = embeddings_cache self \<and> vector_db self' = vector_db self"
  by (auto simp: setup_embedding_model_def split: if_splits)

lemma setup_vector_frame:
  "setup_persistent_vector_database e cs ms self = (ok, self') \<Longrightarrow>
     embeddings_cache self' = embeddings_cache self \<and>
     (\<not> chroma_works e \<longrightarrow> \<not> ok \<and> vector_db self' = None)"
  by (auto simp: setup_persistent_vector_database_def split: if_splits option.splits prod.splits bool.splits)

lemma load_frame:
  "load_legal_texts self = (texts, self') \<Longrightarrow>
     embeddings_cache self' = embeddings_cache self \<and> vector_db self' = vector_db self"
  "load_chunks_data self = (r, self'') \<Longrightarrow>
     embeddings_cache self'' = embeddings_cache self \<and> vector_db self'' = vector_db self"
  by (auto simp: load_legal_texts_def load_chunks_data_def split: cache_file.splits prod.splits)

lemma rebuild_frame:
  "\<exists>ok self'. rebuild e self = Inr (ok, self') \<and>
      embeddings_cache self' = embeddings_cache self \<and>
      (\<not> chroma_works e \<longrightarrow> \<not> ok \<and> (vector_db self = None \<longrightarrow> vector_db self' = None))"
proof (cases "docs_dir self = []")
  case True
  then show ?thesis by (auto simp: rebuild_def)
next
  case False
  obtain texts self1 where ex: "extract_text_from_pdfs e self = (texts, self1)"
    by (cases "extract_text_from_pdfs e self")
  note f1 = extract_frame[OF ex]
  show ?thesis
  proof (cases "texts = []")
    case True
    with False ex f1 show ?thesis by (auto simp: rebuild_def)
  next
    case nonempty: False
    from create_chunks_frame[of texts self1] obtain cs ms self2
      where cc: "create_chunks texts self1 = Inr ((cs, ms), self2)"
        and f2: "embeddings_cache self2 = embeddings_cache self1" "vector_db self2 = vector_db self1"
      by blast
    obtain ok3 self3 where em: "setup_embedding_model e self2 = (ok3, self3)"
      by (cases "setup_embedding_model e self2")
    note f3 = setup_embedding_frame[OF em]
    show ?thesis
    proof (cases ok3)
      case no: False
      with em have "\<not> model_loads e" by (auto simp: setup_embedding_model_def split: if_splits)
      with False nonempty ex cc em no f1 f2 f3 show ?thesis
        by (auto simp: rebuild_def)
    next
      case True
      obtain ok4 self4 where vd: "setup_persistent_vector_database e cs ms self3 = (ok4, self4)"
        by (cases "setup_persistent_vector_database e cs ms self3")
      note f4 = setup_vector_frame[OF vd]
      from False nonempty ex cc em True vd f1 f2 f3 f4 show ?thesis
        by (cases ok4) (auto simp: rebuild_def save_system_metadata_def)
    qed
  qed
qed

lemma initialize_frame:
  "\<exists>ok self'. initialize_system e self = Inr (ok, self') \<and>
      embeddings_cache self' = embeddings_cache self \<and>
      (\<not> chroma_works e \<longrightarrow> \<not> ok \<and> (vector_db self = None \<longrightarrow> vector_db self' = None))"
proof (cases "is_cache_valid e self")
  case False
  with rebuild_frame[of e self] show ?thesis by (auto simp: initialize_system_def)
next
  case True
  obtain texts self1 where lt: "load_legal_texts self = (texts, self1)"
    by (cases "load_legal_texts self")
  obtain cs ms self2 where lc: "load_chunks_data self1 = ((cs, ms), self2)"
    by (cases "load_chunks_data self1") auto
  note f1 = load_frame(1)[OF lt] and f2 = load_frame(2)[OF lc]
  show ?thesis
  proof (cases "texts \<noteq> [] \<and> cs \<noteq> []")
    case False
    with True lt lc rebuild_frame[of e self2] f1 f2 show ?thesis
      by (auto simp: initialize_system_def)
  next
    case ne: True
    obtain ok3 self3 where em: "setup_embedding_model e self2 = (ok3, self3)"
      by (cases "setup_embedding_model e self2")
    note f3 = setup_embedding_frame[OF em]
    show ?thesis
    proof (cases ok3)
      case no: False
      with True ne lt lc em f1 f2 f3 show ?thesis
        by (auto simp: initialize_system_def)
    next
      case yes: True
      obtain ok4 self4 where vd: "setup_persistent_vector_database e cs ms self3 = (ok4, self4)"
        by (cases "setup_persistent_vector_database e cs ms self3")
      note f4 = setup_vector_frame[OF vd]
      from True ne lt lc em yes vd f1 f2 f3 f4 show ?thesis
        by (cases ok4) (auto simp: initialize_system_def)
    qed
  qed
qed

lemma cache_never_valid:
  "\<not> embeddings_cache self \<Longrightarrow> \<not> is_cache_valid e self"
  by (simp add: is_cache_valid_def split: option.splits)

lemma dict_set_nonempty: "dict_set k v d \<noteq> []"
  by (cases d) (auto split: if_splits)

lemma extract_loop_calls:
  "snd (extract_loop e docs (texts, trace)) = trace @ map (\<lambda>f. ExtractText (name f)) docs"
  by (induction docs arbitrary: texts trace) simp_all

lemma extract_loop_nonempty:
  "texts \<noteq> [] \<or> (\<exists>f\<in>set docs. \<exists>t. pdf_text e (name f) = Some t \<and> py_strip t \<noteq> []) \<Longrightarrow>
     fst (extract_loop e docs (texts, trace)) \<noteq> []"
proof (induction docs arbitrary: texts trace)
  case Nil
  then show ?case by simp
next
  case (Cons pdf rest)
  let ?texts' = "case pdf_text e (name pdf) of
          Some t \<Rightarrow> (if py_strip t \<noteq> [] then dict_set (stem (name pdf)) t texts else texts)
        | None \<Rightarrow> texts"
  have "?texts' \<noteq> [] \<or> (\<exists>f\<in>set rest. \<exists>t. pdf_text e (name f) = Some t \<and> py_strip t \<noteq> [])"
    using Cons.prems by (auto simp: dict_set_nonempty split: option.splits)
  from Cons.IH[OF this] show ?case by simp
qed

lemma extract_props:
  assumes "extract_text_from_pdfs e self = (texts, s1)"
  shows "docs_dir s1 = docs_dir self \<and> embeddings_cache s1 = embeddings_cache self \<and>
         texts_cache s1 = Holds texts \<and> vector_db_dir s1 = vector_db_dir self \<and>
         calls s1 = calls self @ map (\<lambda>f. ExtractText (name f)) (docs_dir self) \<and>
         ((\<exists>f\<in>set (docs_dir self). \<exists>t. pdf_text e (name f) = Some t \<and> py_strip t \<noteq> []) \<longrightarrow> texts \<noteq> [])"
proof -
  obtain tx tr where l: "extract_loop e (docs_dir self) ([], calls self) = (tx, tr)"
    by (cases "extract_loop e (docs_dir self) ([], calls self)")
  from extract_loop_calls[of e "docs_dir self" "[]" "calls self"] l
  have tr: "tr = calls self @ map (\<lambda>f. ExtractText (name f)) (docs_dir self)" by simp
  from extract_loop_nonempty[of "[]" "docs_dir self" e "calls self"] l
  have "(\<exists>f\<in>set (docs_dir self). \<exists>t. pdf_text e (name f) = Some t \<and> py_strip t \<noteq> []) \<longrightarrow> tx \<noteq> []"
    by auto
  with assms l tr show ?thesis by (auto simp: extract_text_from_pdfs_def)
qed

lemma create_props:
  "\<exists>cs ms s2. create_chunks texts s1 = Inr ((cs, ms), s2) \<and> length ms = length cs \<and>
     docs_dir s2 = docs_dir s1 \<and> embeddings_cache s2 = embeddings_cache s1 \<and>
     texts_cache s2 = texts_cache s1 \<and> chunks_cache s2 = Holds (cs, ms) \<and>
     calls s2 = calls s1 \<and> vector_db_dir s2 = vector_db_dir s1 \<and>
     chunks_with_context s2 = cs"
proof -
  from create_chunks_loop_all2[of texts "([], [])" texts]
  obtain cs ms where "create_chunks_loop texts ([], []) = Inr (cs, ms)"
    "list_all2 (made_from (\<lambda>text d. chunk_text text 1200 200) texts) cs ms" by auto
  then show ?thesis
    by (auto simp: create_chunks_def save_chunks_data_def dest: list_all2_lengthD)
qed

lemma py_slice_same_length:
  "length xs = length ys \<Longrightarrow> length (py_slice xs i j) = length (py_slice ys i j)"
  by (simp add: py_slice_def Let_def)

lemma add_batches_succeeds:
  assumes "\<forall>batch. \<not> encode_raises e batch" "length metadata = length chunks"
  shows "\<exists>collection' trace'. add_batches e True chunks metadata i (collection, trace)
           = (True, collection', trace') \<and> set trace \<subseteq> set trace'"
proof (induction "length chunks - i" arbitrary: i collection trace rule: less_induct)
  case less
  show ?case
  proof (cases "length chunks \<le> i")
    case True
    then show ?thesis by (subst add_batches.simps) simp
  next
    case False
    then have "length chunks - (i + 25) < length chunks - i" by simp
    from less.hyps[OF this] obtain c' t' where
      "add_batches e True chunks metadata (i + 25)
             (collection @
                map (\<lambda>(j, chunk, meta). (''chunk_'' @ str_nat (i + j), chunk, meta))
                  (zip [0..<length (py_slice chunks (int i) (int i + 25))]
                     (zip (py_slice chunks (int i) (int i + 25))
                          (py_slice metadata (int i) (int i + 25)))),
              trace @ [Encode (py_slice chunks (int i) (int i + 25))]) = (True, c', t')"
      "set (trace @ [Encode (py_slice chunks (int i) (int i + 25))]) \<subseteq> set t'"
      by blast
    with False assms py_slice_same_length[OF assms(2)] show ?thesis
      by (subst add_batches.simps) auto
  qed
qed

lemma vector_props:
  assumes "chroma_works e" "\<forall>batch. \<not> encode_raises e batch" "length ms = length cs"
    "embedding_model s3"
  shows "\<exists>s4. setup_persistent_vector_database e cs ms s3 = (True, s4) \<and>
     docs_dir s4 = docs_dir s3 \<and> embeddings_cache s4 = embeddings_cache s3 \<and>
     texts_cache s4 = texts_cache s3 \<and> chunks_cache s4 = chunks_cache s3 \<and>
     vector_db_dir s4 \<noteq> None \<and> set (calls s3) \<subseteq> set (calls s4) \<and>
     chunks_with_context s4 = chunks_with_context s3"
proof (cases "vector_db_dir s3")
  case (Some c)
  with assms(1) show ?thesis by (simp add: setup_persistent_vector_database_def)
next
  case None
  from add_batches_succeeds[OF assms(2,3), of 0 "[]" "calls s3"] obtain c' t'
    where "add_batches e True cs ms 0 ([], calls s3) = (True, c', t')" "set (calls s3) \<subseteq> set t'"
    by blast
  with None assms(1,4) show ?thesis by (simp add: setup_persistent_vector_database_def)
qed

lemma rebuild_success:
  assumes "model_loads e" "chroma_works e" "\<forall>batch. \<not> encode_raises e batch"
    "f \<in> set (docs_dir self)" "pdf_text e (name f) = Some t" "py_strip t \<noteq> []"
  shows "\<exists>self'. rebuild e self = Inr (True, self') \<and> docs_dir self' = docs_dir self \<and>
     embeddings_cache self' = embeddings_cache self \<and>
     map_option documents_hash (load_system_metadata self') = Some (md5 e (hash_content (docs_dir self))) \<and>
     texts_cache self' \<noteq> Missing \<and> chunks_cache self' \<noteq> Missing \<and> vector_db_dir self' \<noteq> None \<and>
     (\<forall>g\<in>set (docs_dir self). ExtractText (name g) \<in> set (calls self'))"
proof -
  from assms(4) have docs: "docs_dir self \<noteq> []" by auto
  obtain texts s1 where ex: "extract_text_from_pdfs e self = (texts, s1)"
    by (cases "extract_text_from_pdfs e self")
  from extract_props[OF ex] assms(4-6)
  have p1: "docs_dir s1 = docs_dir self" "embeddings_cache s1 = embeddings_cache self"
    "texts_cache s1 = Holds texts" "vector_db_dir s1 = vector_db_dir self"
    "calls s1 = calls self @ map (\<lambda>f. ExtractText (name f)) (docs_dir self)" "texts \<noteq> []"
    by blast+
  from create_props[of texts s1] obtain cs ms s2 where
    cc: "create_chunks texts s1 = Inr ((cs, ms), s2)" and
    p2: "length ms = length cs" "docs_dir s2 = docs_dir s1" "embeddings_cache s2 = embeddings_cache s1"
     "texts_cache s2 = texts_cache s1" "chunks_cache s2 = Holds (cs, ms)"
     "calls s2 = calls s1" "vector_db_dir s2 = vector_db_dir s1"
    by blast
  let ?s3 = "s2\<lparr>embedding_model := True\<rparr>"
  from assms(1) have em: "setup_embedding_model e s2 = (True, ?s3)"
    by (simp add: setup_embedding_model_def)
  from vector_props[OF assms(2,3) p2(1), of ?s3] obtain s4 where
    vd: "setup_persistent_vector_database e cs ms ?s3 = (True, s4)" and
    p4: "docs_dir s4 = docs_dir ?s3" "embeddings_cache s4 = embeddings_cache ?s3"
     "texts_cache s4 = texts_cache ?s3" "chunks_cache s4 = chunks_cache ?s3"
     "vector_db_dir s4 \<noteq> None" "set (calls ?s3) \<subseteq> set (calls s4)"
    by auto
  let ?s5 = "save_system_metadata (get_documents_hash e s4) s4"
  from docs ex p1(6) cc em vd have run: "rebuild e self = Inr (True, ?s5)"
    by (simp add: rebuild_def)
  have calls: "\<forall>g\<in>set (docs_dir self). ExtractText (name g) \<in> set (calls ?s5)"
    using p4(6) p2(6) p1(5) by (auto simp: save_system_metadata_def)
  from p1 p2 p4 have "docs_dir ?s5 = docs_dir self" "embeddings_cache ?s5 = embeddings_cache self"
    "map_option documents_hash (load_system_metadata ?s5) = Some (md5 e (hash_content (docs_dir self)))"
    "texts_cache ?s5 \<noteq> Missing" "chunks_cache ?s5 \<noteq> Missing" "vector_db_dir ?s5 \<noteq> None"
    by (simp_all add: save_system_metadata_def load_system_metadata_def get_documents_hash_def)
  with run calls show ?thesis by blast
qed

lemma cache_valid_path_skips_pipeline:
  assumes "is_cache_valid e self" "texts_cache self = Holds texts" "texts \<noteq> []"
    "chunks_cache self = Holds (cs, ms)" "cs \<noteq> []" "vector_db_dir self = Some collection"
  shows "\<exists>ok self'. initialize_system e self = Inr (ok, self') \<and> calls self' = calls self"
  using assms
  by (auto simp: initialize_system_def load_legal_texts_def load_chunks_data_def
      setup_embedding_model_def setup_persistent_vector_database_def)

lemma main_rebuilds:
  assumes "\<not> embeddings_cache self" "model_loads e" "chroma_works e"
    "\<forall>batch. \<not> encode_raises e batch"
    "f \<in> set (docs_dir self)" "pdf_text e (name f) = Some t" "py_strip t \<noteq> []"
  shows "\<exists>self'. main e self = Inr (True, self') \<and> docs_dir self' = docs_dir self \<and>
     \<not> embeddings_cache self' \<and>
     map_option documents_hash (load_system_metadata self') = Some (get_documents_hash e (restart self')) \<and>
     texts_cache self' \<noteq> Missing \<and> chunks_cache self' \<noteq> Missing \<and> vector_db_dir self' \<noteq> None \<and>
     \<not> is_cache_valid e (restart self') \<and>
     (\<forall>g\<in>set (docs_dir self). ExtractText (name g) \<in> set (calls self'))"
proof -
  have r: "docs_dir (restart self) = docs_dir self" "\<not> embeddings_cache (restart self)"
    using assms(1) by (simp_all add: restart_def)
  from assms(5) r(1) have mem: "f \<in> set (docs_dir (restart self))" by simp
  from rebuild_success[OF assms(2-4) mem assms(6,7)] obtain self' where
    s: "rebuild e (restart self) = Inr (True, self')" "docs_dir self' = docs_dir (restart self)"
     "embeddings_cache self' = embeddings_cache (restart self)"
     "map_option documents_hash (load_system_metadata self') = Some (md5 e (hash_content (docs_dir (restart self))))"
     "texts_cache self' \<noteq> Missing" "chunks_cache self' \<noteq> Missing" "vector_db_dir self' \<noteq> None"
     "\<forall>g\<in>set (docs_dir (restart self)). ExtractText (name g) \<in> set (calls self')"
    by blast
  from cache_never_valid[OF r(2), of e] s(1)
  have run: "main e self = Inr (True, self')" by (simp add: main_def initialize_system_def)
  from s(3) r(2) have ne: "\<not> embeddings_cache self'" by simp
  then have "\<not> embeddings_cache (restart self')" by (simp add: restart_def)
  then have inv: "\<not> is_cache_valid e (restart self')" by (rule cache_never_valid)
  from s(2,4) r(1) have h: "map_option documents_hash (load_system_metadata self') = Some (get_documents_hash e (restart self'))"
    by (simp add: get_documents_hash_def restart_def)
  from run s(2) r(1) ne h s(5-7) inv s(8) show ?thesis by auto
qed

text \<open>
  Claim C4 against the code. A successful full rebuild writes \<^verbatim>\<open>legal_texts.json\<close>,
  \<^verbatim>\<open>chunks_data.pickle\<close>, the vector collection and \<^verbatim>\<open>system_metadata.json\<close> with the
  current fingerprint, and never \<^verbatim>\<open>embeddings.pickle\<close>, which \<^verbatim>\<open>is_cache_valid\<close> requires.
  So from a cache directory without that file, where every library call succeeds and a
  document has text: the first run succeeds and leaves the stored fingerprint equal to the
  current one, the cache is still not valid, and the next run, on unchanged documents,
  succeeds by handing every document to the text extractor again.
\<close>

theorem second_run_extracts_again:
  assumes "\<not> embeddings_cache self" "model_loads e" "chroma_works e"
    "\<forall>batch. \<not> encode_raises e batch"
    "f \<in> set (docs_dir self)" "pdf_text e (name f) = Some t" "py_strip t \<noteq> []"
  shows "\<exists>s1 s2. main e self = Inr (True, s1) \<and> docs_dir s1 = docs_dir self \<and>
     map_option documents_hash (load_system_metadata s1) = Some (get_documents_hash e (restart s1)) \<and>
     texts_cache s1 \<noteq> Missing \<and> chunks_cache s1 \<noteq> Missing \<and> vector_db_dir s1 \<noteq> None \<and>
     \<not> is_cache_valid e (restart s1) \<and>
     main e s1 = Inr (True, s2) \<and>
     (\<forall>g\<in>set (docs_dir self). ExtractText (name g) \<in> set (calls s2))"
proof -
  from main_rebuilds[OF assms] obtain s1 where
    s1: "main e self = Inr (True, s1)" "docs_dir s1 = docs_dir self" "\<not> embeddings_cache s1"
     "map_option documents_hash (load_system_metadata s1) = Some (get_documents_hash e (restart s1))"
     "texts_cache s1 \<noteq> Missing" "chunks_cache s1 \<noteq> Missing" "vector_db_dir s1 \<noteq> None"
     "\<not> is_cache_valid e (restart s1)"
    by blast
  from assms(5) s1(2) have mem: "f \<in> set (docs_dir s1)" by simp
  from main_rebuilds[OF s1(3) assms(2-4) mem assms(6,7)] obtain s2 where
    "main e s1 = Inr (True, s2)" "\<forall>g\<in>set (docs_dir s1). ExtractText (name g) \<in> set (calls s2)"
    by blast
  with s1 show ?thesis by auto
qed

text \<open>The run on one document, for any digest function.\<close>

theorem second_run_extracts_again_witness:
  "\<forall>digest. \<exists>s1 s2.
     main (example_env digest) (new_persistent_rag example_docs) = Inr (True, s1) \<and>
     \<not> is_cache_valid (example_env digest) (restart s1) \<and>
     main (example_env digest) s1 = Inr (True, s2) \<and>
     ExtractText ''Constitution_2008.pdf'' \<in> set (calls s2)"
proof
  fix digest
  let ?f = "\<lparr>name = ''Constitution_2008.pdf'', st_size = 52301, st_mtime = ''1700000000.5''\<rparr>"
  let ?t = "''Article 1. All citizens shall have the right to freedom of speech, opinion and expression under this Constitution.''"
  have h: "\<not> embeddings_cache (new_persistent_rag example_docs)" "model_loads (example_env digest)"
    "chroma_works (example_env digest)" "\<forall>batch. \<not> encode_raises (example_env digest) batch"
    "?f \<in> set (docs_dir (new_persistent_rag example_docs))"
    "pdf_text (example_env digest) (name ?f) = Some ?t"
    by (simp_all add: new_persistent_rag_def example_env_def example_docs_def)
  have "\<not> is_space CHR ''A''" by (simp add: is_space_def)
  then have t: "py_strip ?t \<noteq> []" unfolding py_strip_Nil_iff by auto
  from second_run_extracts_again[OF h t] obtain s1 s2 where
    "main (example_env digest) (new_persistent_rag example_docs) = Inr (True, s1)"
    "\<not> is_cache_valid (example_env digest) (restart s1)"
    "main (example_env digest) s1 = Inr (True, s2)"
    "\<forall>g\<in>set (docs_dir (new_persistent_rag example_docs)). ExtractText (name g) \<in> set (calls s2)"
    by blast
  moreover have "docs_dir (new_persistent_rag example_docs) = [?f]"
    by (simp add: new_persistent_rag_def example_docs_def)
  ultimately show "\<exists>s1 s2.
     main (example_env digest) (new_persistent_rag example_docs) = Inr (True, s1) \<and>
     \<not> is_cache_valid (example_env digest) (restart s1) \<and>
     main (example_env digest) s1 = Inr (True, s2) \<and>
     ExtractText ''Constitution_2008.pdf'' \<in> set (calls s2)"
    by auto
qed

section \<open>Retrieval without an index\<close>

text \<open>
  Claim C6, as the code has it. With the index absent no prototype raises, and two of the
  three fall back to a keyword search: \<^verbatim>\<open>BhutanLegalRAG\<close>, after
  \<^verbatim>\<open>setup_vector_database\<close> failed, answers from its text search over the chunks it kept
  then, and \<^verbatim>\<open>ImprovedBhutanRAG\<close> from \<^verbatim>\<open>enhanced_text_search\<close> over the retained chunks
  (one metadata record per chunk). \<^verbatim>\<open>PersistentBhutanRAG\<close> has no keyword search: when the
  backing store cannot be opened \<^verbatim>\<open>initialize_system\<close> returns \<^verbatim>\<open>False\<close> and leaves the
  index absent, and \<^verbatim>\<open>search_documents\<close> with the index absent returns two empty lists
  without searching.
\<close>

theorem absent_index_retrieval:
  "(vector_db self = None \<longrightarrow> search_documents vquery self query k = ([], [])) \<and>
   (\<not> chroma_works e \<longrightarrow>
      (\<exists>self'. initialize_system e self = Inr (False, self') \<and>
         (vector_db self = None \<longrightarrow> vector_db self' = None))) \<and>
   (length metadata = length chunks \<longrightarrow>
      vector_db (setup_vector_database (Inl err) chunks metadata legal) = None \<and>
      search_legal_documents lquery (setup_vector_database (Inl err) chunks metadata legal) query k
        = simple_text_search chunks metadata query k \<and>
      (\<exists>docs ms. simple_text_search chunks metadata query k = Inr (docs, ms))) \<and>
   (vector_db improved = None \<and>
    length (metadata_with_context improved) = length (chunks_with_context improved) \<longrightarrow>
      improved_search_documents iquery improved query k
        = enhanced_text_search (chunks_with_context improved) (metadata_with_context improved) query k \<and>
      (\<exists>docs ms. improved_search_documents iquery improved query k = Inr (docs, ms)))"
proof (intro conjI impI)
  assume "vector_db self = None"
  then show "search_documents vquery self query k = ([], [])" by (rule search_documents_absent)
next
  assume "\<not> chroma_works e"
  with initialize_frame[of e self]
  show "\<exists>self'. initialize_system e self = Inr (False, self') \<and>
         (vector_db self = None \<longrightarrow> vector_db self' = None)" by auto
next
  assume a: "length metadata = length chunks"
  from search_legal_documents_after_failure[OF a, of err legal lquery query k]
  show "vector_db (setup_vector_database (Inl err) chunks metadata legal) = None"
    "search_legal_documents lquery (setup_vector_database (Inl err) chunks metadata legal) query k
        = simple_text_search chunks metadata query k"
    "\<exists>docs ms. simple_text_search chunks metadata query k = Inr (docs, ms)"
    by blast+
next
  assume a: "vector_db improved = None \<and>
    length (metadata_with_context improved) = length (chunks_with_context improved)"
  then have a1: "vector_db improved = None" and a2:
    "length (metadata_with_context improved) = length (chunks_with_context improved)" by simp_all
  from improved_search_documents_absent[OF a1 a2, of iquery query k]
  show "improved_search_documents iquery improved query k
        = enhanced_text_search (chunks_with_context improved) (metadata_with_context improved) query k"
    "\<exists>docs ms. improved_search_documents iquery improved query k = Inr (docs, ms)"
    by blast+
qed

text \<open>The four cases at concrete objects: a fresh \<^verbatim>\<open>PersistentBhutanRAG\<close>, and the other two
  classes holding one chunk.\<close>

theorem absent_index_retrieval_witness:
  "search_documents (\<lambda>c q k. Inl ValueError) (new_persistent_rag []) ''tax'' 5 = ([], []) \<and>
   (\<exists>self'. initialize_system (example_env id\<lparr>chroma_works := False\<rparr>) (new_persistent_rag example_docs)
      = Inr (False, self') \<and> vector_db self' = None) \<and>
   search_legal_documents (\<lambda>c q k. Inl ValueError)
     (setup_vector_database (Inl ValueError) [''income tax'']
        [\<lparr>document = ''Tax_Act_2022'', chunk_id = 0, total_chunks = 1\<rparr>]
        \<lparr>chunks_with_context = [], metadata_with_context = [], vector_db = None,
          chunks_fallback = None\<rparr>) ''tax'' 5
     = Inr ([''income tax''], [\<lparr>document = ''Tax_Act_2022'', chunk_id = 0, total_chunks = 1\<rparr>]) \<and>
   improved_search_documents (\<lambda>c q k. Inl ValueError)
     \<lparr>chunks_with_context = [''income tax''],
       metadata_with_context = [\<lparr>document = ''Tax_Act_2022'', chunk_id = 0, total_chunks = 1,
          doc_type = ''tax_law'', content_preview = ''income tax''\<rparr>],
       vector_db = None\<rparr> ''tax'' 5
     = Inr ([''income tax''], [\<lparr>document = ''Tax_Act_2022'', chunk_id = 0, total_chunks = 1,
          doc_type = ''tax_law'', content_preview = ''income tax''\<rparr>])"
proof -
  let ?lm = "\<lparr>document = ''Tax_Act_2022'', chunk_id = 0, total_chunks = 1\<rparr>"
  let ?im = "\<lparr>document = ''Tax_Act_2022'', chunk_id = 0, total_chunks = 1,
          doc_type = ''tax_law'', content_preview = ''income tax''\<rparr>"
  let ?legal = "\<lparr>chunks_with_context = [], metadata_with_context = [], vector_db = None,
          chunks_fallback = None\<rparr>"
  let ?improved = "\<lparr>chunks_with_context = [''income tax''], metadata_with_context = [?im],
       vector_db = None\<rparr>"
  let ?e = "example_env id\<lparr>chroma_works := False\<rparr>"
  note t = absent_index_retrieval[of "new_persistent_rag []" "\<lambda>c q k. Inl ValueError" "''tax''" 5
      ?e "[?lm]" "[''income tax'']" ValueError ?legal "\<lambda>c q k. Inl ValueError" ?improved
      "\<lambda>c q k. Inl ValueError"]
  note u = absent_index_retrieval[of "new_persistent_rag example_docs" "\<lambda>c q k. Inl ValueError" "''tax''" 5
      ?e "[?lm]" "[''income tax'']" ValueError ?legal "\<lambda>c q k. Inl ValueError" ?improved
      "\<lambda>c q k. Inl ValueError"]
  have a: "search_documents (\<lambda>c q k. Inl ValueError) (new_persistent_rag []) ''tax'' 5 = ([], [])"
    using t by (simp add: new_persistent_rag_def)
  have b: "\<exists>self'. initialize_system ?e (new_persistent_rag example_docs) = Inr (False, self') \<and>
      vector_db self' = None"
    using u by (simp add: new_persistent_rag_def example_env_def)
  have s: "simple_text_search [''income tax''] [?lm] ''tax'' 5 = Inr ([''income tax''], [?lm])"
    by code_simp
  have c: "search_legal_documents (\<lambda>c q k. Inl ValueError)
     (setup_vector_database (Inl ValueError) [''income tax''] [?lm] ?legal) ''tax'' 5
     = Inr ([''income tax''], [?lm])"
    using t s by simp
  have en: "enhanced_text_search [''income tax''] [?im] ''tax'' 5 = Inr ([''income tax''], [?im])"
    by code_simp
  have d: "improved_search_documents (\<lambda>c q k. Inl ValueError) ?improved ''tax'' 5
     = Inr ([''income tax''], [?im])"
    using t en by simp
  from a b c d show ?thesis by blast
qed

text \<open>
  Claim C6 fails on \<^verbatim>\<open>PersistentBhutanRAG\<close>: with the index absent and a retained chunk that
  contains the question, \<^verbatim>\<open>search_documents\<close> returns nothing, whatever the index library
  would do, although a keyword search over the retained chunks finds the chunk.
\<close>

theorem absent_index_counterexample:
  "(\<forall>vquery. search_documents vquery
      ((new_persistent_rag [])
         \<lparr>chunks_with_context := [''The penalty for corruption is imprisonment.''],
          metadata_with_context := [\<lparr>document = ''Penal_Code_2004'', chunk_id = 0,
             total_chunks = 1, doc_type = ''criminal_law''\<rparr>]\<rparr>)
      ''penalty for corruption'' 5 = ([], [])) \<and>
   enhanced_text_search [''The penalty for corruption is imprisonment.'']
     [\<lparr>document = ''Penal_Code_2004'', chunk_id = 0, total_chunks = 1,
        doc_type = ''criminal_law''\<rparr>]
     ''penalty for corruption'' 5
   = Inr ([''The penalty for corruption is imprisonment.''],
          [\<lparr>document = ''Penal_Code_2004'', chunk_id = 0, total_chunks = 1,
             doc_type = ''criminal_law''\<rparr>])"
proof -
  have "enhanced_text_search [''The penalty for corruption is imprisonment.'']
     [\<lparr>document = ''Penal_Code_2004'', chunk_id = 0, total_chunks = 1,
        doc_type = ''criminal_law''\<rparr>]
     ''penalty for corruption'' 5
   = Inr ([''The penalty for corruption is imprisonment.''],
          [\<lparr>document = ''Penal_Code_2004'', chunk_id = 0, total_chunks = 1,
             doc_type = ''criminal_law''\<rparr>])"
    by code_simp
  then show ?thesis by (simp add: search_documents_def new_persistent_rag_def)
qed

section \<open>Properties of the fingerprint\<close>

lemma digit_cases: "d < 10 \<Longrightarrow> d \<in> {0, 1, 2, 3, 4, 5, 6, 7, 8, 9::nat}"
  by auto

lemma digit_val_char: "d < 10 \<Longrightarrow> digit_val (digit_char d) = d"
  using digit_cases[of d] by (auto simp: digit_val_def digit_char_def)

lemma digit_char_no_colon: "digit_char d \<noteq> CHR '':''"
proof -
  have "d mod 10 < 10" by simp
  from digit_cases[OF this] show ?thesis by (auto simp: digit_char_def)
qed

lemma str_nat_no_colon: "CHR '':'' \<notin> set (str_nat n)"
proof (induction n rule: str_nat.induct)
  case (1 n)
  note c = digit_char_no_colon[THEN not_sym]
  show ?case
  proof (cases "n < 10")
    case True
    then show ?thesis by (subst str_nat.simps) (simp add: c)
  next
    case False
    with 1 show ?thesis by (subst str_nat.simps) (simp add: c)
  qed
qed

lemma nat_of_digits_str_nat: "nat_of_digits (str_nat n) = n"
proof (induction n rule: str_nat.induct)
  case (1 n)
  show ?case
  proof (cases "n < 10")
    case True
    then show ?thesis by (subst str_nat.simps) (simp add: nat_of_digits_def digit_val_char)
  next
    case False
    with 1 have "nat_of_digits (str_nat (n div 10)) = n div 10" by simp
    with False show ?thesis
      by (subst str_nat.simps) (simp add: nat_of_digits_def digit_val_char)
  qed
qed

lemma str_nat_inj: "str_nat m = str_nat n \<Longrightarrow> m = n"
  by (metis nat_of_digits_str_nat)

lemma terminated_head:
  "c \<notin> set f \<Longrightarrow> c \<notin> set g \<Longrightarrow> f @ c # r = g @ c # r' \<Longrightarrow> f = g \<and> r = r'"
proof (induction f arbitrary: g)
  case Nil
  then show ?case by (cases g) auto
next
  case (Cons a f)
  then show ?case by (cases g) auto
qed

lemma terminated_inj:
  assumes "\<forall>f\<in>set fs. c \<notin> set f" "\<forall>g\<in>set gs. c \<notin> set g"
    "concat (map (\<lambda>f. f @ [c]) fs) = concat (map (\<lambda>f. f @ [c]) gs)"
  shows "fs = gs"
  using assms
proof (induction fs arbitrary: gs)
  case Nil
  then show ?case by (cases gs) auto
next
  case (Cons f fs)
  show ?case
  proof (cases gs)
    case Nil
    with Cons.prems show ?thesis by simp
  next
    case (Cons g gs')
    with Cons.prems have e: "f @ c # concat (map (\<lambda>f. f @ [c]) fs) = g @ c # concat (map (\<lambda>f. f @ [c]) gs')"
      and nf: "c \<notin> set f" "c \<notin> set g" by simp_all
    from terminated_head[OF nf e] have "f = g" "concat (map (\<lambda>f. f @ [c]) fs) = concat (map (\<lambda>f. f @ [c]) gs')"
      by simp_all
    moreover from Cons.prems Cons have "\<forall>f\<in>set fs. c \<notin> set f" "\<forall>g\<in>set gs'. c \<notin> set g" by simp_all
    ultimately show ?thesis using Cons.IH[of gs'] Cons by simp
  qed
qed

lemma hash_entry_fields: "hash_entry f = concat (map (\<lambda>s. s @ '':'') (hash_fields f))"
  by (simp add: hash_entry_def hash_fields_def)

lemma hash_entries_fields:
  "concat (map hash_entry ds) = concat (map (\<lambda>s. s @ '':'') (concat (map hash_fields ds)))"
  by (induction ds) (simp_all add: hash_entry_fields)

lemma hash_content_fields:
  "hash_content docs = concat (map (\<lambda>s. s @ '':'') (concat (map hash_fields (sort_key name docs))))"
  by (simp add: hash_content_def hash_entries_fields)

lemma hash_fields_inj: "hash_fields f = hash_fields g \<Longrightarrow> f = g"
  by (cases f, cases g) (auto simp: hash_fields_def dest: str_nat_inj)

lemma hash_fields_list_inj:
  "concat (map hash_fields xs) = concat (map hash_fields ys) \<Longrightarrow> xs = ys"
proof (induction xs arbitrary: ys)
  case Nil
  then show ?case by (cases ys) (auto simp: hash_fields_def)
next
  case (Cons x xs)
  then show ?case by (cases ys) (auto simp: hash_fields_def dest: str_nat_inj intro: pdf_file.equality)
qed

lemma hash_content_inj:
  assumes "colon_free X" "colon_free Y" "hash_content X = hash_content Y"
  shows "sort_key name X = sort_key name Y"
proof -
  have cf: "\<forall>s\<in>set (concat (map hash_fields (sort_key name D))). CHR '':'' \<notin> set s"
    if "colon_free D" for D
    using that str_nat_no_colon by (auto simp: colon_free_def hash_fields_def)
  from assms(3) have "concat (map (\<lambda>s. s @ '':'') (concat (map hash_fields (sort_key name X))))
      = concat (map (\<lambda>s. s @ '':'') (concat (map hash_fields (sort_key name Y))))"
    by (simp only: hash_content_fields)
  from terminated_inj[OF cf[OF assms(1)] cf[OF assms(2)] this]
  show ?thesis by (rule hash_fields_list_inj)
qed

lemma hash_content_changes:
  assumes "colon_free X" "colon_free Y" "set X \<noteq> set Y"
  shows "hash_content X \<noteq> hash_content Y"
proof
  assume "hash_content X = hash_content Y"
  from hash_content_inj[OF assms(1,2) this] have "set (sort_key name X) = set (sort_key name Y)"
    by simp
  with assms(3) show False by simp
qed

lemma hash_content_listing_order:
  assumes "distinct (map name X)" "distinct (map name Y)" "set Y = set X"
  shows "hash_content Y = hash_content X"
proof -
  let ?sx = "sort_key name X" and ?sy = "sort_key name Y"
  from assms(1,2) have dx: "distinct X" "inj_on name (set X)" and dy: "distinct Y"
    by (simp_all add: distinct_map)
  have "distinct (map name ?sx)" "distinct (map name ?sy)"
    using dx dy assms(3) by (simp_all add: distinct_map)
  moreover have "sorted (map name ?sx)" "sorted (map name ?sy)" by (rule sorted_sort_key)+
  moreover have "set (map name ?sx) = set (map name ?sy)" using assms(3) by simp
  ultimately have "map name ?sy = map name ?sx"
    by (metis sorted_distinct_set_unique)
  moreover have "inj_on name (set ?sy \<union> set ?sx)" using dx(2) assms(3) by simp
  ultimately have "?sy = ?sx" by (simp add: inj_on_map_eq_map)
  then show ?thesis by (simp add: hash_content_def)
qed

text \<open>
  Claim C3, as the code has it. The fingerprint is the MD5 digest of a text built from the
  documents sorted by name, so it does not depend on the order in which the directory
  lists them: computed again over an unchanged document set it is the same. When no
  document name (and no formatted modification time) contains a colon, the text is
  different for any two different document sets: adding, removing, or changing the name,
  size or modification time of a document changes what is digested.
\<close>

theorem fingerprint_of_document_set:
  "get_documents_hash e self = md5 e (hash_content (docs_dir self)) \<and>
   (distinct (map name X) \<and> distinct (map name Y) \<and> set Y = set X \<longrightarrow>
      hash_content Y = hash_content X) \<and>
   (colon_free X \<and> colon_free Y \<and> set X \<noteq> set Y \<longrightarrow> hash_content X \<noteq> hash_content Y)"
  using hash_content_listing_order[of X Y] hash_content_changes[of X Y]
  by (simp add: get_documents_hash_def)

text \<open>Two documents listed in either order; and one document whose size changes.\<close>

theorem fingerprint_of_document_set_witness:
  "hash_content [\<lparr>name = ''b.pdf'', st_size = 2048, st_mtime = ''1700000000.0''\<rparr>,
                 \<lparr>name = ''a.pdf'', st_size = 10240, st_mtime = ''1700000000.0''\<rparr>]
     = hash_content [\<lparr>name = ''a.pdf'', st_size = 10240, st_mtime = ''1700000000.0''\<rparr>,
                     \<lparr>name = ''b.pdf'', st_size = 2048, st_mtime = ''1700000000.0''\<rparr>] \<and>
   hash_content [\<lparr>name = ''a.pdf'', st_size = 10240, st_mtime = ''1700000000.0''\<rparr>]
     \<noteq> hash_content [\<lparr>name = ''a.pdf'', st_size = 10241, st_mtime = ''1700000000.0''\<rparr>]"
proof -
  let ?a = "\<lparr>name = ''a.pdf'', st_size = 10240, st_mtime = ''1700000000.0''\<rparr>"
  let ?a' = "\<lparr>name = ''a.pdf'', st_size = 10241, st_mtime = ''1700000000.0''\<rparr>"
  let ?b = "\<lparr>name = ''b.pdf'', st_size = 2048, st_mtime = ''1700000000.0''\<rparr>"
  have o: "distinct (map name [?a, ?b]) \<and> distinct (map name [?b, ?a]) \<and> set [?b, ?a] = set [?a, ?b]"
    by auto
  have c: "colon_free [?a] \<and> colon_free [?a'] \<and> set [?a] \<noteq> set [?a']"
    by (simp add: colon_free_def)
  from fingerprint_of_document_set[of _ _ "[?a, ?b]" "[?b, ?a]"] o
  have 1: "hash_content [?b, ?a] = hash_content [?a, ?b]" by blast
  from fingerprint_of_document_set[of _ _ "[?a]" "[?a']"] c
  have 2: "hash_content [?a] \<noteq> hash_content [?a']" by blast
  from 1 2 show ?thesis by simp
qed

text \<open>
  Claim C3 fails for file names with colons. These two document sets differ in the name of
  one document only, and the text that is digested is the same for both, so they have the
  same fingerprint whatever the digest function.
\<close>

theorem fingerprint_counterexample:
  "set [\<lparr>name = ''a.pdf:10240:1700000000.0:b.pdf:10240:1700000000.0:a.pdf'', st_size = 10240, st_mtime = ''1700000000.0''\<rparr>, \<lparr>name = ''b.pdf:10240:1700000000.0:a.pdf'', st_size = 10240, st_mtime = ''1700000000.0''\<rparr>] \<noteq> set [\<lparr>name = ''a.pdf:10240:1700000000.0:b.pdf:10240:1700000000.0:a.pdf'', st_size = 10240, st_mtime = ''1700000000.0''\<rparr>, \<lparr>name = ''a.pdf:10240:1700000000.0:b.pdf'', st_size = 10240, st_mtime = ''1700000000.0''\<rparr>] \<and>
   (\<forall>e self. get_documents_hash e (self\<lparr>docs_dir := [\<lparr>name = ''a.pdf:10240:1700000000.0:b.pdf:10240:1700000000.0:a.pdf'', st_size = 10240, st_mtime = ''1700000000.0''\<rparr>, \<lparr>name = ''b.pdf:10240:1700000000.0:a.pdf'', st_size = 10240, st_mtime = ''1700000000.0''\<rparr>]\<rparr>)
      = get_documents_hash e (self\<lparr>docs_dir := [\<lparr>name = ''a.pdf:10240:1700000000.0:b.pdf:10240:1700000000.0:a.pdf'', st_size = 10240, st_mtime = ''1700000000.0''\<rparr>, \<lparr>name = ''a.pdf:10240:1700000000.0:b.pdf'', st_size = 10240, st_mtime = ''1700000000.0''\<rparr>]\<rparr>))"
proof -
  let ?p = "\<lparr>name = ''a.pdf:10240:1700000000.0:b.pdf:10240:1700000000.0:a.pdf'', st_size = 10240, st_mtime = ''1700000000.0''\<rparr>"
  let ?q = "\<lparr>name = ''b.pdf:10240:1700000000.0:a.pdf'', st_size = 10240, st_mtime = ''1700000000.0''\<rparr>"
  let ?q' = "\<lparr>name = ''a.pdf:10240:1700000000.0:b.pdf'', st_size = 10240, st_mtime = ''1700000000.0''\<rparr>"
  have n: "str_nat 10240 = ''10240''"
    by (simp add: str_nat.simps digit_char_def)
  have same: "hash_content [?p, ?q] = hash_content [?p, ?q']"
    by (simp add: hash_content_def hash_entry_def n)
  have "?q \<in> set [?p, ?q]" "?q \<notin> set [?p, ?q']" by simp_all
  then have "set [?p, ?q] \<noteq> set [?p, ?q']" by metis
  with same show ?thesis by (simp add: get_documents_hash_def)
qed

section \<open>Properties of answering\<close>

lemma first_doc_returns: "context_docs \<noteq> [] \<Longrightarrow> \<exists>start. first_doc context_docs n = Inr start"
  by (cases context_docs) (simp_all add: first_doc_def)

lemma or_first_doc_returns:
  "context_docs \<noteq> [] \<Longrightarrow> \<exists>answer. or_first_doc found fallback context_docs n = Inr answer"
  using first_doc_returns[of context_docs n]
  by (cases found) (auto simp: or_first_doc_def)

lemma generate_fallback_response_returns:
  "context_docs \<noteq> [] \<Longrightarrow>
     \<exists>answer. generate_fallback_response query context_docs metadata = Inr answer"
  using first_doc_returns[of context_docs 400]
  by (auto simp: generate_fallback_response_def split: option.splits)

lemma generate_response_returns:
  "\<exists>answer. generate_response gemini_client query context_docs metadata = Inr answer"
proof (cases "context_docs = []")
  case True
  then show ?thesis by (simp add: generate_response_def)
next
  case False
  from generate_fallback_response_returns[OF this, of query metadata] False
  show ?thesis
    by (auto simp: generate_response_def split: option.splits sum.splits)
qed

lemma extract_legal_answer_returns:
  "context_docs \<noteq> [] \<Longrightarrow> \<exists>answer. extract_legal_answer query context_docs metadata = Inr answer"
  using or_first_doc_returns[of context_docs]
  by (simp add: extract_legal_answer_def Let_def extract_rights_info_def
      extract_penalty_info_def extract_citizenship_info_def extract_environment_info_def
      extract_election_info_def extract_topic_info_def extract_general_info_def)

lemma generate_enhanced_response_returns:
  "\<exists>answer. generate_enhanced_response qa_pipeline query context_docs metadata = Inr answer"
proof (cases "context_docs = []")
  case True
  then show ?thesis by (simp add: generate_enhanced_response_def)
next
  case False
  from extract_legal_answer_returns[OF this, of query metadata] False
  show ?thesis
    by (auto simp: generate_enhanced_response_def split: option.splits sum.splits)
qed

lemma ask_legal_question_shape:
  "\<exists>answer sources ai.
     ask_legal_question vquery gemini_client self question =
       Inr [(''question'', Str question), (''answer'', Str answer),
            (''sources'', StrList sources), (''ai_powered'', Bool ai)] \<and>
     (fst (search_documents vquery self question 5) = [] \<longrightarrow>
        answer = ''No relevant legal information found.'' \<and> sources = [] \<and> \<not> ai)"
proof -
  obtain docs ms where s: "search_documents vquery self question 5 = (docs, ms)"
    by (cases "search_documents vquery self question 5")
  show ?thesis
  proof (cases "docs = []")
    case True
    with s show ?thesis by (auto simp: ask_legal_question_def)
  next
    case False
    from generate_response_returns[of gemini_client question docs ms] obtain answer
      where "generate_response gemini_client question docs ms = Inr answer" by blast
    with s False show ?thesis by (auto simp: ask_legal_question_def)
  qed
qed

lemma improved_search_documents_returns:
  assumes "length (metadata_with_context improved) = length (chunks_with_context improved)"
  shows "\<exists>docs ms. improved_search_documents vquery improved query k = Inr (docs, ms)"
proof -
  from enhanced_text_search_returns[OF assms, of query k] obtain docs ms where
    "enhanced_text_search (chunks_with_context improved) (metadata_with_context improved) query k
       = Inr (docs, ms)" by blast
  then show ?thesis
    by (auto simp: improved_search_documents_def split: option.splits sum.splits)
qed

lemma improved_ask_legal_question_shape:
  assumes "length (metadata_with_context improved) = length (chunks_with_context improved)"
  shows "\<exists>r answer sources c.
     improved_ask_legal_question vquery qa_pipeline improved question = Inr r \<and>
     map_of r ''question'' = Some (Str question) \<and> map_of r ''answer'' = Some (Str answer) \<and>
     map_of r ''sources'' = Some (StrList sources) \<and>
     map_of r ''confidence'' = Some (Float c) \<and> 0 \<le> c \<and> c \<le> 1 \<and>
     (\<forall>ms. improved_search_documents vquery improved question 5 = Inr ([], ms) \<longrightarrow>
        r = [(''question'', Str question),
             (''answer'', Str ''No relevant legal information found in the available documents.''),
             (''sources'', StrList []), (''confidence'', Float 0)])"
proof -
  from improved_search_documents_returns[OF assms, of vquery question 5] obtain docs ms
    where s: "improved_search_documents vquery improved question 5 = Inr (docs, ms)" by blast
  show ?thesis
  proof (cases "docs = []")
    case True
    with s show ?thesis by (auto simp: improved_ask_legal_question_def)
  next
    case False
    from generate_enhanced_response_returns[of qa_pipeline question docs ms] obtain answer
      where "generate_enhanced_response qa_pipeline question docs ms = Inr answer" by blast
    with s False show ?thesis by (auto simp: improved_ask_legal_question_def)
  qed
qed

text \<open>
  Claim C7, as the code has it. Neither class lets an exception out of
  \<^verbatim>\<open>ask_legal_question\<close>. \<^verbatim>\<open>ImprovedBhutanRAG\<close>, holding one metadata record per chunk,
  returns a dictionary with \<^verbatim>\<open>question\<close>, \<^verbatim>\<open>answer\<close>, \<^verbatim>\<open>sources\<close> and a \<^verbatim>\<open>confidence\<close>
  between 0 and 1, and when the search finds no chunk exactly the fixed answer with no
  sources and confidence 0. \<^verbatim>\<open>PersistentBhutanRAG\<close> returns the four entries \<^verbatim>\<open>question\<close>,
  \<^verbatim>\<open>answer\<close>, \<^verbatim>\<open>sources\<close> and \<^verbatim>\<open>ai_powered\<close>, and no \<^verbatim>\<open>confidence\<close>; when the search finds
  no chunk the answer is fixed, the sources are empty and \<^verbatim>\<open>ai_powered\<close> is false.
\<close>

theorem ask_returns_result:
  "(\<exists>answer sources ai.
      ask_legal_question vquery gemini_client self question =
        Inr [(''question'', Str question), (''answer'', Str answer),
             (''sources'', StrList sources), (''ai_powered'', Bool ai)] \<and>
      (fst (search_documents vquery self question 5) = [] \<longrightarrow>
         answer = ''No relevant legal information found.'' \<and> sources = [] \<and> \<not> ai)) \<and>
   (length (metadata_with_context improved) = length (chunks_with_context improved) \<longrightarrow>
      (\<exists>r answer sources c.
         improved_ask_legal_question iquery qa_pipeline improved question = Inr r \<and>
         map_of r ''question'' = Some (Str question) \<and> map_of r ''answer'' = Some (Str answer) \<and>
         map_of r ''sources'' = Some (StrList sources) \<and>
         map_of r ''confidence'' = Some (Float c) \<and> 0 \<le> c \<and> c \<le> 1 \<and>
         (\<forall>ms. improved_search_documents iquery improved question 5 = Inr ([], ms) \<longrightarrow>
            r = [(''question'', Str question),
                 (''answer'', Str ''No relevant legal information found in the available documents.''),
                 (''sources'', StrList []), (''confidence'', Float 0)])))"
  using ask_legal_question_shape[of vquery gemini_client self question]
    improved_ask_legal_question_shape[of improved iquery qa_pipeline question]
  by blast

text \<open>An \<^verbatim>\<open>ImprovedBhutanRAG\<close> that holds one chunk, with no index and no pipeline.\<close>

theorem ask_returns_result_witness:
  "\<exists>r c. improved_ask_legal_question (\<lambda>c q k. Inl ValueError) None
       \<lparr>chunks_with_context = [''income tax''],
         metadata_with_context = [\<lparr>document = ''Tax_Act_2022'', chunk_id = 0, total_chunks = 1,
            doc_type = ''tax_law'', content_preview = ''income tax''\<rparr>],
         vector_db = None\<rparr> ''tax'' = Inr r \<and>
     map_of r ''question'' = Some (Str ''tax'') \<and>
     map_of r ''confidence'' = Some (Float c) \<and> 0 \<le> c \<and> c \<le> 1"
proof -
  let ?improved = "\<lparr>chunks_with_context = [''income tax''],
         metadata_with_context = [\<lparr>document = ''Tax_Act_2022'', chunk_id = 0, total_chunks = 1,
            doc_type = ''tax_law'', content_preview = ''income tax''\<rparr>],
         vector_db = None\<rparr>"
  have h: "length (metadata_with_context ?improved) = length (chunks_with_context ?improved)"
    by simp
  from ask_returns_result[THEN conjunct2, rule_format, OF h,
      of "\<lambda>c q k. Inl ValueError" None "''tax''"]
  show ?thesis by blast
qed

text \<open>
  Claim C7 fails on \<^verbatim>\<open>PersistentBhutanRAG\<close>: the dictionary it returns has no
  \<^verbatim>\<open>confidence\<close>. On a fresh object, whatever the index library and the generative service
  would do:
\<close>

theorem ask_result_counterexample:
  "\<forall>vquery gemini_client.
     ask_legal_question vquery gemini_client (new_persistent_rag [])
       ''What are the fundamental rights?''
     = Inr [(''question'', Str ''What are the fundamental rights?''),
            (''answer'', Str ''No relevant legal information found.''),
            (''sources'', StrList []), (''ai_powered'', Bool False)] \<and>
     map_of [(''question'', Str ''What are the fundamental rights?''),
             (''answer'', Str ''No relevant legal information found.''),
             (''sources'', StrList []), (''ai_powered'', Bool False)] ''confidence'' = None"
  by (simp add: ask_legal_question_def search_documents_def new_persistent_rag_def)

end
